theory Spec2Isabelle
  imports Main
begin

section \<open>Python values and errors\<close>

text \<open>
  The values that \<^verbatim>\<open>json.load\<close> returns and \<^verbatim>\<open>json.dump\<close> accepts. A Python
  dict keeps its keys in insertion order, so an object is an association list.
  \<open>JFloat m e\<close> is the float of value \<open>m * 10 ^ e\<close>; which float a literal denotes is
  the decoder's matter, and only whether a float is zero is ever observed.
\<close>

datatype json =
    JNull
  | JBool bool
  | JInt int
  | JFloat int int
  | JStr string
  | JArr "json list"
  | JObj "(string \<times> json) list"

text \<open>The exceptions that leave a function of \<^verbatim>\<open>scraper.py\<close>.\<close>

datatype py_error =
    FileNotFoundError string
  | IsADirectoryError string
  | FileExistsError string
  | ValueError string
  | JSONDecodeError
  | YAMLError
  | TypeError
  | AttributeError
  | ZeroDivisionError
  | OSError string

subsection \<open>Strings\<close>

text \<open>
  \<^verbatim>\<open>str.strip()\<close> removes every Unicode whitespace character, so the scraper takes it
  as a parameter (\<open>str_strip\<close> below). On a text of ASCII characters it is this function.
\<close>

definition is_ascii_space :: "char \<Rightarrow> bool" where
  "is_ascii_space c = (c \<in> set [CHR '' '', CHR 0x09, CHR 0x0A, CHR 0x0B, CHR 0x0C, CHR 0x0D,
                                  CHR 0x1C, CHR 0x1D, CHR 0x1E, CHR 0x1F])"

definition ascii_strip :: "string \<Rightarrow> string" where
  "ascii_strip s = rev (dropWhile is_ascii_space (rev (dropWhile is_ascii_space s)))"

text \<open>\<^verbatim>\<open>s.split(c)\<close> for a one-character separator: never the empty list.\<close>

fun split_on :: "char \<Rightarrow> string \<Rightarrow> string list" where
  "split_on c [] = [] # []"
| "split_on c (x # xs) =
     (if x = c then [] # split_on c xs
      else (case split_on c xs of [] \<Rightarrow> [x] # [] | w # ws \<Rightarrow> (x # w) # ws))"

text \<open>\<^verbatim>\<open>sep.join(xs)\<close> on a list of strings.\<close>

fun join :: "string \<Rightarrow> string list \<Rightarrow> string" where
  "join sep [] = []"
| "join sep [x] = x"
| "join sep (x # y # ys) = x @ sep @ join sep (y # ys)"

text \<open>\<^verbatim>\<open>str(n)\<close> for an integer, used by the f-string \<^verbatim>\<open>f"HTTP {response.status}"\<close>.\<close>

definition digit_char :: "nat \<Rightarrow> char" where
  "digit_char d = ''0123456789'' ! d"

fun str_nat :: "nat \<Rightarrow> string" where
  "str_nat n = (if n < 10 then [digit_char n] else str_nat (n div 10) @ [digit_char (n mod 10)])"

declare str_nat.simps [simp del]

definition str_int :: "int \<Rightarrow> string" where
  "str_int i = (if i < 0 then CHR ''-'' # str_nat (nat (- i)) else str_nat (nat i))"

text \<open>\<^verbatim>\<open>a in b\<close> on two strings is the substring test.\<close>

fun starts_with :: "string \<Rightarrow> string \<Rightarrow> bool" where
  "starts_with [] s = True"
| "starts_with (a # as) [] = False"
| "starts_with (a # as) (x # xs) = (a = x \<and> starts_with as xs)"

fun is_substring :: "string \<Rightarrow> string \<Rightarrow> bool" where
  "is_substring a [] = (a = [])"
| "is_substring a (x # xs) = (starts_with a (x # xs) \<or> is_substring a xs)"

subsection \<open>Dictionaries\<close>

text \<open>
  \<^verbatim>\<open>d[k] = v\<close> on a dict: an existing key keeps its position and takes the new value,
  a new key goes to the end.
\<close>

fun dict_set :: "string \<Rightarrow> json \<Rightarrow> (string \<times> json) list \<Rightarrow> (string \<times> json) list" where
  "dict_set k v [] = [(k, v)]"
| "dict_set k v (p # ps) = (if fst p = k then (k, v) # ps else p # dict_set k v ps)"

fun dict_get :: "string \<Rightarrow> (string \<times> json) list \<Rightarrow> json option" where
  "dict_get k [] = None"
| "dict_get k (p # ps) = (if fst p = k then Some (snd p) else dict_get k ps)"

definition dict_keys :: "(string \<times> json) list \<Rightarrow> string list" where
  "dict_keys d = map fst d"

text \<open>
  The operations \<^verbatim>\<open>process_urls\<close> and \<^verbatim>\<open>scrape_website\<close> apply to the three stores.
  The stores are whatever \<^verbatim>\<open>json.load\<close> returned, so each operation is given for every
  shape of value, with the exception Python raises on the shapes that do not support it.
\<close>

fun py_truthy :: "json \<Rightarrow> bool" where
  "py_truthy JNull = False"
| "py_truthy (JBool b) = b"
| "py_truthy (JInt n) = (n \<noteq> 0)"
| "py_truthy (JFloat m e) = (m \<noteq> 0)"
| "py_truthy (JStr s) = (s \<noteq> [])"
| "py_truthy (JArr xs) = (xs \<noteq> [])"
| "py_truthy (JObj d) = (d \<noteq> [])"

fun py_setitem :: "json \<Rightarrow> string \<Rightarrow> json \<Rightarrow> py_error + json" where
  "py_setitem (JObj d) k v = Inr (JObj (dict_set k v d))"
| "py_setitem j k v = Inl TypeError"

fun py_keys :: "json \<Rightarrow> py_error + string list" where
  "py_keys (JObj d) = Inr (dict_keys d)"
| "py_keys j = Inl AttributeError"

fun py_contains :: "string \<Rightarrow> json \<Rightarrow> py_error + bool" where
  "py_contains k (JObj d) = Inr (k \<in> set (dict_keys d))"
| "py_contains k (JArr xs) = Inr (JStr k \<in> set xs)"
| "py_contains k (JStr s) = Inr (is_substring k s)"
| "py_contains k j = Inl TypeError"

section \<open>The world outside the program\<close>

text \<open>
  The working directory: a path is missing, a directory, or a regular file with its text.
  Paths are compared as written, without normalisation. Reading a missing file or a
  directory raises; the errors the operating system can raise on a write (permissions, a
  full disk, a directory in the way) are not part of the model.
\<close>

datatype node = Dir | File string

type_synonym fs = "string \<Rightarrow> node option"

definition is_present :: "fs \<Rightarrow> string \<Rightarrow> bool" where
  "is_present disk p = (disk p \<noteq> None)"

text \<open>Reading in text mode turns CR LF and a lone CR into LF.\<close>

fun universal_newlines :: "string \<Rightarrow> string" where
  "universal_newlines [] = []"
| "universal_newlines [c] = [if c = CHR 0x0D then CHR 0x0A else c]"
| "universal_newlines (c # d # ds) =
     (if c = CHR 0x0D \<and> d = CHR 0x0A then CHR 0x0A # universal_newlines ds
      else if c = CHR 0x0D then CHR 0x0A # universal_newlines (d # ds)
      else c # universal_newlines (d # ds))"

definition open_read :: "fs \<Rightarrow> string \<Rightarrow> py_error + string" where
  "open_read disk p =
     (case disk p of
        None \<Rightarrow> Inl (FileNotFoundError p)
      | Some Dir \<Rightarrow> Inl (IsADirectoryError p)
      | Some (File t) \<Rightarrow> Inr (universal_newlines t))"

definition write_file :: "fs \<Rightarrow> string \<Rightarrow> string \<Rightarrow> fs" where
  \<comment> \<open>\<^verbatim>\<open>open(p, 'w')\<close> and one write\<close>
  "write_file disk p t = disk(p \<mapsto> File t)"

definition append_file :: "fs \<Rightarrow> string \<Rightarrow> string \<Rightarrow> fs" where
  \<comment> \<open>\<^verbatim>\<open>open(p, 'a')\<close> and one write\<close>
  "append_file disk p t =
     disk(p \<mapsto> File ((case disk p of Some (File old) \<Rightarrow> old | _ \<Rightarrow> []) @ t))"

definition mkdir_exist_ok :: "fs \<Rightarrow> string \<Rightarrow> py_error + fs" where
  "mkdir_exist_ok disk p =
     (case disk p of
        None \<Rightarrow> Inr (disk(p \<mapsto> Dir))
      | Some Dir \<Rightarrow> Inr disk
      | Some (File t) \<Rightarrow> Inl (FileExistsError p))"

text \<open>
  What BeautifulSoup shows of a parsed page: every tag in document order, each with its
  name, the text \<^verbatim>\<open>get_text()\<close> returns for it, and its \<^verbatim>\<open>.string\<close>, which is
  \<^verbatim>\<open>None\<close> unless the tag has exactly one child that is (or leads to) a single string.
\<close>

record tag =
  tag_name :: string
  get_text :: string
  tag_string :: "string option"

type_synonym soup = "tag list"

definition find_all :: "string list \<Rightarrow> soup \<Rightarrow> tag list" where
  "find_all names doc = filter (\<lambda>t. tag_name t \<in> set names) doc"

definition soup_title :: "soup \<Rightarrow> tag option" where
  \<comment> \<open>\<^verbatim>\<open>soup.title\<close>: the first tag named title, or \<^verbatim>\<open>None\<close>\<close>
  "soup_title doc = (case find_all [''title''] doc of [] \<Rightarrow> None | t # ts \<Rightarrow> Some t)"

text \<open>
  One request: \<^verbatim>\<open>session.get\<close> raises an exception \<open>e\<close> (given by \<^verbatim>\<open>str(e)\<close>), or
  answers with a status; the body of an answer is read by \<^verbatim>\<open>response.text()\<close>, which
  raises or gives the page BeautifulSoup parses. Every failure of aiohttp and asyncio is
  an instance of \<^verbatim>\<open>Exception\<close>; a timeout is \<^verbatim>\<open>asyncio.TimeoutError()\<close>, whose
  \<^verbatim>\<open>str\<close> is the empty string.
\<close>

datatype body = TextRaises string | Html soup

datatype fetch_outcome = GetRaises string | Response int body

text \<open>
  The collaborators and library functions, as parameters: the search provider (its
  answer to the \<open>n\<close>-th call, \<^verbatim>\<open>None\<close> when it raises), the fetch of a URL, the JSON
  and YAML codecs, the one regular expression of the Markdown reader and
  \<^verbatim>\<open>Path.suffix\<close>, \<^verbatim>\<open>str.strip\<close>, and the verdict of the operating system that a
  path is too long a name (\<^verbatim>\<open>os.stat\<close> fails with \<^verbatim>\<open>ENAMETOOLONG\<close>, on Linux for a
  component of more than 255 bytes). The fetch is a function of the URL alone: the pending
  list of a run is made of the keys of a dict, so a run requests a URL at most once.
\<close>

record env =
  search :: "nat \<Rightarrow> string \<Rightarrow> int \<Rightarrow> string list option"
  fetch :: "string \<Rightarrow> fetch_outcome"
  json_loads :: "string \<Rightarrow> json option"
  json_dump_indent :: "json \<Rightarrow> string"
  json_dumps :: "json \<Rightarrow> string"
  yaml_safe_load :: "string \<Rightarrow> json option"
  re_findall_bullets :: "string \<Rightarrow> string list"
  path_suffix :: "string \<Rightarrow> string"
  str_strip :: "string \<Rightarrow> string"
  name_too_long :: "string \<Rightarrow> bool"

text \<open>
  \<^verbatim>\<open>Path(p).exists()\<close>: whether the path is there, unless the name is too long: that
  error of \<^verbatim>\<open>os.stat\<close> is not among those \<^verbatim>\<open>exists\<close> turns into \<^verbatim>\<open>False\<close>.
\<close>

definition path_exists :: "env \<Rightarrow> fs \<Rightarrow> string \<Rightarrow> py_error + bool" where
  "path_exists ev disk p = (if name_too_long ev p then Inl (OSError p) else Inr (is_present disk p))"

section \<open>The scraper\<close>

text \<open>
  The fields of \<^verbatim>\<open>ScrapeMaster\<close>, the working directory it reads and writes, and two
  traces that record the calls made to the collaborators: every search with the number of
  results it asked for, and every URL handed to \<^verbatim>\<open>scrape_website\<close>.
\<close>

record scraper =
  num_websites :: int
  topics :: "string list"
  urls_per_topic :: int
  master_urls :: json
  completed_urls :: json
  error_urls :: json
  disk :: fs
  search_calls :: "(string \<times> int) list"
  fetch_calls :: "string list"

definition master_file :: string where "master_file = ''websites_master.json''"
definition completed_file :: string where "completed_file = ''websites_completed.json''"
definition errors_file :: string where "errors_file = ''websites_errors.json''"
definition output_dir :: string where "output_dir = ''final_dataset''"
definition output_file :: string where "output_file = ''final_dataset/dataset.jsonl''"

subsection \<open>Loading the stores\<close>

text \<open>
  \<^verbatim>\<open>_load_or_create_json\<close>. Its argument is one of the three store files above, whose
  names are short, so \<^verbatim>\<open>file_path.exists()\<close> is the test whether the file is there.
\<close>

definition load_or_create_json :: "env \<Rightarrow> fs \<Rightarrow> string \<Rightarrow> py_error + json" where
  "load_or_create_json ev d file_path =
     (if is_present d file_path then
        (case open_read d file_path of
           Inl e \<Rightarrow> Inl e
         | Inr t \<Rightarrow> (case json_loads ev t of None \<Rightarrow> Inl JSONDecodeError | Some j \<Rightarrow> Inr j))
      else Inr (JObj []))"

text \<open>
  \<^verbatim>\<open>ScrapeMaster.__init__\<close>. An exception leaves the directory as it was when it was
  raised, so the failure carries the directory.
\<close>

definition ScrapeMaster_init :: "env \<Rightarrow> fs \<Rightarrow> int \<Rightarrow> string \<Rightarrow> py_error \<times> fs + scraper" where
  "ScrapeMaster_init ev d num topics_str =
     (let ts = map (str_strip ev) (split_on CHR '','' topics_str) in
      if length ts = 0 then Inl (ZeroDivisionError, d)
      else
        (case mkdir_exist_ok d output_dir of
           Inl e \<Rightarrow> Inl (e, d)
         | Inr d1 \<Rightarrow>
            (case load_or_create_json ev d1 master_file of
               Inl e \<Rightarrow> Inl (e, d1)
             | Inr m \<Rightarrow>
                (case load_or_create_json ev d1 completed_file of
                   Inl e \<Rightarrow> Inl (e, d1)
                 | Inr c \<Rightarrow>
                    (case load_or_create_json ev d1 errors_file of
                       Inl e \<Rightarrow> Inl (e, d1)
                     | Inr er \<Rightarrow>
                        Inr \<lparr> num_websites = num, topics = ts,
                              urls_per_topic = num div int (length ts),
                              master_urls = m, completed_urls = c, error_urls = er,
                              disk = d1, search_calls = [], fetch_calls = [] \<rparr>)))))"

subsection \<open>Searching\<close>

text \<open>
  \<^verbatim>\<open>_search_google_sync\<close>: the URLs the provider yields, or the empty list when the
  provider raises. \<^verbatim>\<open>search_google\<close> runs it on a thread pool and returns its result.
\<close>

definition search_google_sync :: "env \<Rightarrow> string \<Rightarrow> scraper \<Rightarrow> string list \<times> scraper" where
  "search_google_sync ev topic s =
     (let answer = search ev (length (search_calls s)) topic (urls_per_topic s);
          s1 = s\<lparr>search_calls := search_calls s @ [(topic, urls_per_topic s)]\<rparr>
      in (case answer of None \<Rightarrow> ([], s1) | Some urls \<Rightarrow> (urls, s1)))"

definition search_google :: "env \<Rightarrow> string \<Rightarrow> scraper \<Rightarrow> string list \<times> scraper" where
  "search_google ev topic s = search_google_sync ev topic s"

subsection \<open>Fetching one page\<close>

definition scrape_result :: "string \<Rightarrow> soup \<Rightarrow> json" where
  \<comment> \<open>lines 79 to 85: the dict that \<^verbatim>\<open>scrape_website\<close> returns\<close>
  "scrape_result url doc =
     (let text = join '' '' (map get_text
                   (find_all [''p'', ''h1'', ''h2'', ''h3'', ''h4'', ''h5'', ''h6''] doc))
      in JObj [(''url'', JStr url),
               (''title'', (case soup_title doc of
                              None \<Rightarrow> JStr []
                            | Some t \<Rightarrow> (case tag_string t of None \<Rightarrow> JNull | Some x \<Rightarrow> JStr x))),
               (''content'', JStr text)])"

definition record_error :: "string \<Rightarrow> string \<Rightarrow> scraper \<Rightarrow> (py_error + json option) \<times> scraper" where
  \<comment> \<open>the handler of lines 88 to 90; an exception raised inside it is not caught\<close>
  "record_error url msg s =
     (case py_setitem (error_urls s) url (JStr msg) of
        Inl e \<Rightarrow> (Inl e, s)
      | Inr er \<Rightarrow> (Inr None, s\<lparr>error_urls := er\<rparr>))"

definition scrape_website :: "env \<Rightarrow> string \<Rightarrow> scraper \<Rightarrow> (py_error + json option) \<times> scraper" where
  "scrape_website ev url s =
     (let s1 = s\<lparr>fetch_calls := fetch_calls s @ [url]\<rparr> in
      case fetch ev url of
        GetRaises msg \<Rightarrow> record_error url msg s1
      | Response status b \<Rightarrow>
          if status = 200 then
            (case b of
               TextRaises msg \<Rightarrow> record_error url msg s1
             | Html doc \<Rightarrow> (Inr (Some (scrape_result url doc)), s1))
          else record_error url (''HTTP '' @ str_int status) s1)"

subsection \<open>The run\<close>

text \<open>Lines 99 and 100: the inner loop \<^verbatim>\<open>for url in urls: self.master_urls[url] = topic\<close>.\<close>

fun assign_topic :: "string \<Rightarrow> string list \<Rightarrow> json \<Rightarrow> py_error + json" where
  "assign_topic topic [] m = Inr m"
| "assign_topic topic (url # urls) m =
     (case py_setitem m url (JStr topic) of
        Inl e \<Rightarrow> Inl e
      | Inr m1 \<Rightarrow> assign_topic topic urls m1)"

text \<open>Lines 97 to 107: the loop over the topics. The result is the exception that ended it, if any.\<close>

fun collect_urls :: "env \<Rightarrow> string list \<Rightarrow> scraper \<Rightarrow> py_error option \<times> scraper" where
  "collect_urls ev [] s = (None, s)"
| "collect_urls ev (topic # ts) s =
     (case search_google ev topic s of
        (urls, s1) \<Rightarrow>
          (case assign_topic topic urls (master_urls s1) of
             Inl e \<Rightarrow> (Some e, s1)
           | Inr m \<Rightarrow>
               collect_urls ev ts
                 (s1\<lparr>master_urls := m,
                     disk := write_file (disk s1) master_file (json_dump_indent ev m)\<rparr>)))"

text \<open>
  Lines 110 and 111: the list comprehension, in its order of evaluation: the failed-set
  is consulted only for a URL that is not in the completed-set.
\<close>

fun pending_urls :: "json \<Rightarrow> json \<Rightarrow> string list \<Rightarrow> py_error + string list" where
  "pending_urls c er [] = Inr []"
| "pending_urls c er (url # urls) =
     (case py_contains url c of
        Inl e \<Rightarrow> Inl e
      | Inr True \<Rightarrow> pending_urls c er urls
      | Inr False \<Rightarrow>
          (case py_contains url er of
             Inl e \<Rightarrow> Inl e
           | Inr failed \<Rightarrow>
               (case pending_urls c er urls of
                  Inl e \<Rightarrow> Inl e
                | Inr rest \<Rightarrow> Inr (if failed then rest else url # rest))))"

definition save_progress :: "env \<Rightarrow> scraper \<Rightarrow> scraper" where
  \<comment> \<open>lines 123 to 126\<close>
  "save_progress ev s =
     s\<lparr>disk := write_file
                 (write_file (disk s) completed_file (json_dump_indent ev (completed_urls s)))
                 errors_file (json_dump_indent ev (error_urls s))\<rparr>"

text \<open>Lines 114 to 128: the loop over the pending URLs.\<close>

fun process_pending :: "env \<Rightarrow> string list \<Rightarrow> scraper \<Rightarrow> py_error option \<times> scraper" where
  "process_pending ev [] s = (None, s)"
| "process_pending ev (url # urls) s =
     (case scrape_website ev url s of
        (Inl e, s1) \<Rightarrow> (Some e, s1)
      | (Inr None, s1) \<Rightarrow> process_pending ev urls (save_progress ev s1)
      | (Inr (Some result), s1) \<Rightarrow>
          (if py_truthy result then
             (case py_setitem (completed_urls s1) url result of
                Inl e \<Rightarrow> (Some e, s1)
              | Inr c \<Rightarrow>
                  process_pending ev urls
                    (save_progress ev
                       (s1\<lparr>completed_urls := c,
                           disk := append_file (disk s1) output_file
                                     (json_dumps ev result @ [CHR 0x0A])\<rparr>)))
           else process_pending ev urls (save_progress ev s1)))"

definition process_urls :: "env \<Rightarrow> scraper \<Rightarrow> py_error option \<times> scraper" where
  "process_urls ev s =
     (case (if \<not> py_truthy (master_urls s) then collect_urls ev (topics s) s else (None, s)) of
        (Some e, s1) \<Rightarrow> (Some e, s1)
      | (None, s1) \<Rightarrow>
          (case py_keys (master_urls s1) of
             Inl e \<Rightarrow> (Some e, s1)
           | Inr keys \<Rightarrow>
               (case pending_urls (completed_urls s1) (error_urls s1) keys of
                  Inl e \<Rightarrow> (Some e, s1)
                | Inr pending \<Rightarrow> process_pending ev pending s1)))"

subsection \<open>Topic files and the command line\<close>

text \<open>\<^verbatim>\<open>f.readlines()\<close>: the lines of a text, each with its newline.\<close>

fun readlines :: "string \<Rightarrow> string list" where
  "readlines [] = []"
| "readlines (c # cs) =
     (if c = CHR 0x0A then [c] # readlines cs
      else (case readlines cs of [] \<Rightarrow> [c] # [] | l # ls \<Rightarrow> (c # l) # ls))"

definition stripped_lines :: "env \<Rightarrow> string list \<Rightarrow> json" where
  \<comment> \<open>\<^verbatim>\<open>[line.strip() for line in lines if line.strip()]\<close>\<close>
  "stripped_lines ev ls = JArr (map JStr (filter (\<lambda>l. l \<noteq> []) (map (str_strip ev) ls)))"

definition topics_of_data :: "string \<Rightarrow> json \<Rightarrow> py_error + json" where
  \<comment> \<open>lines 142 to 146, and 151 to 155 with YAML for JSON\<close>
  "topics_of_data format data =
     (case data of
        JArr xs \<Rightarrow> Inr data
      | JObj d \<Rightarrow>
          (case dict_get ''topics'' d of
             Some v \<Rightarrow> Inr v
           | None \<Rightarrow> Inl (ValueError (format @ '' file must contain a list or a dict with 'topics' key'')))
      | _ \<Rightarrow> Inl (ValueError (format @ '' file must contain a list or a dict with 'topics' key'')))"

definition load_topics_from_file :: "env \<Rightarrow> fs \<Rightarrow> string \<Rightarrow> py_error + json" where
  "load_topics_from_file ev d file_path =
     (case path_exists ev d file_path of
        Inl e \<Rightarrow> Inl e
      | Inr there \<Rightarrow>
          if \<not> there then Inl (FileNotFoundError (''File not found: '' @ file_path))
          else if path_suffix ev file_path = ''.json'' then
            (case open_read d file_path of
               Inl e \<Rightarrow> Inl e
             | Inr t \<Rightarrow>
                 (case json_loads ev t of
                    None \<Rightarrow> Inl JSONDecodeError
                  | Some data \<Rightarrow> topics_of_data ''JSON'' data))
          else if path_suffix ev file_path \<in> set [''.yaml'', ''.yml''] then
            (case open_read d file_path of
               Inl e \<Rightarrow> Inl e
             | Inr t \<Rightarrow>
                 (case yaml_safe_load ev t of
                    None \<Rightarrow> Inl YAMLError
                  | Some data \<Rightarrow> topics_of_data ''YAML'' data))
          else if path_suffix ev file_path = ''.txt'' then
            (case open_read d file_path of
               Inl e \<Rightarrow> Inl e
             | Inr t \<Rightarrow> Inr (stripped_lines ev (readlines t)))
          else if path_suffix ev file_path = ''.md'' then
            (case open_read d file_path of
               Inl e \<Rightarrow> Inl e
             | Inr content \<Rightarrow>
                 (let found = re_findall_bullets ev content in
                  if found \<noteq> [] then Inr (JArr (map (\<lambda>topic. JStr (str_strip ev topic)) found))
                  else Inr (stripped_lines ev (split_on CHR 0x0A content))))
          else Inl (ValueError (''Unsupported file format: '' @ path_suffix ev file_path)))"

text \<open>
  \<^verbatim>\<open>','.join(topics)\<close> on what the loader returned: a list of strings, or any other
  iterable of strings (the characters of a string, the keys of a dict).
\<close>

fun as_strings :: "json list \<Rightarrow> string list option" where
  "as_strings [] = Some []"
| "as_strings (JStr x # js) = (case as_strings js of None \<Rightarrow> None | Some xs \<Rightarrow> Some (x # xs))"
| "as_strings (j # js) = None"

definition join_topics :: "json \<Rightarrow> py_error + string" where
  "join_topics v =
     (case v of
        JArr js \<Rightarrow> (case as_strings js of None \<Rightarrow> Inl TypeError | Some xs \<Rightarrow> Inr (join '','' xs))
      | JStr x \<Rightarrow> Inr (join '','' (map (\<lambda>c. [c]) x))
      | JObj d \<Rightarrow> Inr (join '','' (dict_keys d))
      | _ \<Rightarrow> Inl TypeError)"

record args =
  websites :: int
  topics_arg :: string

definition main_topics_str :: "env \<Rightarrow> fs \<Rightarrow> string \<Rightarrow> py_error + string" where
  \<comment> \<open>lines 183 to 188\<close>
  "main_topics_str ev d arg =
     (case path_exists ev d arg of
        Inl e \<Rightarrow> Inl e
      | Inr there \<Rightarrow>
          if there then
            (case load_topics_from_file ev d arg of
               Inl e \<Rightarrow> Inl e
             | Inr ts \<Rightarrow> join_topics ts)
          else Inr arg)"

text \<open>
  The outcome of \<^verbatim>\<open>main\<close>: an exception before the run, with the directory it leaves,
  or the run, with the exception that ended it, if any, and the scraper it leaves.
\<close>

datatype outcome = Failed py_error fs | Ran "py_error option" scraper

definition main :: "env \<Rightarrow> args \<Rightarrow> fs \<Rightarrow> outcome" where
  "main ev a d =
     (case main_topics_str ev d (topics_arg a) of
        Inl e \<Rightarrow> Failed e d
      | Inr topics_str \<Rightarrow>
          (case ScrapeMaster_init ev d (websites a) topics_str of
             Inl (e, d1) \<Rightarrow> Failed e d1
           | Inr s \<Rightarrow> (case process_urls ev s of (r, s1) \<Rightarrow> Ran r s1)))"

section \<open>Notions used in the statements\<close>

subsection \<open>Stores that are dicts\<close>

text \<open>A store that is a Python dict: an object whose keys are distinct.\<close>

definition is_dict :: "json \<Rightarrow> bool" where
  "is_dict j = (case j of JObj d \<Rightarrow> distinct (dict_keys d) | _ \<Rightarrow> False)"

definition keys_of :: "json \<Rightarrow> string set" where
  "keys_of j = (case j of JObj d \<Rightarrow> set (dict_keys d) | _ \<Rightarrow> {})"

definition lookup :: "json \<Rightarrow> string \<Rightarrow> json option" where
  "lookup j k = (case j of JObj d \<Rightarrow> dict_get k d | _ \<Rightarrow> None)"

definition file_text :: "fs \<Rightarrow> string \<Rightarrow> string" where
  "file_text d p = (case d p of Some (File t) \<Rightarrow> t | _ \<Rightarrow> [])"

subsection \<open>Failed and successful fetches\<close>

text \<open>
  A fetch fails when the request or the reading of the body raises, or when the status is
  not 200. Its reason is the \<^verbatim>\<open>str\<close> of the exception, or \<^verbatim>\<open>HTTP\<close> and the status.
\<close>

definition fetch_fails :: "fetch_outcome \<Rightarrow> bool" where
  "fetch_fails out =
     (case out of
        GetRaises msg \<Rightarrow> True
      | Response status b \<Rightarrow> status \<noteq> 200 \<or> (case b of TextRaises msg \<Rightarrow> True | Html doc \<Rightarrow> False))"

definition failure_reason :: "fetch_outcome \<Rightarrow> string" where
  "failure_reason out =
     (case out of
        GetRaises msg \<Rightarrow> msg
      | Response status b \<Rightarrow>
          if status = 200 then (case b of TextRaises msg \<Rightarrow> msg | Html doc \<Rightarrow> [])
          else ''HTTP '' @ str_int status)"

definition fetched_page :: "fetch_outcome \<Rightarrow> soup" where
  "fetched_page out = (case out of Response status (Html doc) \<Rightarrow> doc | _ \<Rightarrow> [])"

text \<open>
  The state after one turn of the loop of \<^verbatim>\<open>process_urls\<close> on dict stores, when the fetch
  of the URL fails and when it succeeds.
\<close>

definition failed_turn :: "env \<Rightarrow> string \<Rightarrow> scraper \<Rightarrow> (string \<times> json) list \<Rightarrow> scraper" where
  "failed_turn ev url s er =
     save_progress ev (s\<lparr>fetch_calls := fetch_calls s @ [url],
                         error_urls := JObj (dict_set url (JStr (failure_reason (fetch ev url))) er)\<rparr>)"

definition completed_turn :: "env \<Rightarrow> string \<Rightarrow> scraper \<Rightarrow> (string \<times> json) list \<Rightarrow> scraper" where
  "completed_turn ev url s c =
     (let result = scrape_result url (fetched_page (fetch ev url)) in
      save_progress ev
        (s\<lparr>fetch_calls := fetch_calls s @ [url],
           completed_urls := JObj (dict_set url result c),
           disk := append_file (disk s) output_file (json_dumps ev result @ [CHR 0x0A])\<rparr>))"

text \<open>
  The URLs of a pending list whose records a run appends to the output file, and the line
  it appends for one of them.
\<close>

definition appended_urls :: "env \<Rightarrow> string list \<Rightarrow> string list" where
  "appended_urls ev p = filter (\<lambda>u. \<not> fetch_fails (fetch ev u)) p"

definition output_line :: "env \<Rightarrow> string \<Rightarrow> string" where
  "output_line ev u = json_dumps ev (scrape_result u (fetched_page (fetch ev u))) @ [CHR 0x0A]"

subsection \<open>Reachable states\<close>

text \<open>
  The states of the scraper over any number of runs: a state loaded with three dicts of
  which the completed-set and the failed-set are disjoint; the state after the collection
  of URLs; the state after a turn of the loop on a URL that is pending; the state after a
  whole run; and the state a later run starts from, which has the stores the earlier run
  saved and its own count and topics.
\<close>

inductive reachable :: "scraper \<Rightarrow> bool" where
  loaded:
    "is_dict (master_urls s) \<Longrightarrow> is_dict (completed_urls s) \<Longrightarrow> is_dict (error_urls s) \<Longrightarrow>
     keys_of (completed_urls s) \<inter> keys_of (error_urls s) = {} \<Longrightarrow> reachable s"
| collected:
    "reachable s \<Longrightarrow> collect_urls ev ts s = (r, s') \<Longrightarrow> reachable s'"
| turn:
    "reachable s \<Longrightarrow> url \<in> keys_of (master_urls s) \<Longrightarrow>
     url \<notin> keys_of (completed_urls s) \<Longrightarrow> url \<notin> keys_of (error_urls s) \<Longrightarrow>
     process_pending ev [url] s = (r, s') \<Longrightarrow> reachable s'"
| run:
    "reachable s \<Longrightarrow> process_urls ev s = (r, s') \<Longrightarrow> reachable s'"
| restart:
    "reachable s \<Longrightarrow>
     reachable (s\<lparr>num_websites := n, topics := ts, urls_per_topic := k,
                  search_calls := [], fetch_calls := []\<rparr>)"

definition exclusive :: "scraper \<Rightarrow> bool" where
  "exclusive s = (is_dict (master_urls s) \<and> is_dict (completed_urls s) \<and> is_dict (error_urls s) \<and>
                  keys_of (completed_urls s) \<inter> keys_of (error_urls s) = {})"

subsection \<open>Concrete collaborators and states\<close>

text \<open>
  A provider that finds nothing, a network where every request times out, a JSON codec
  that knows the two smallest documents, the suffix of a file name, \<^verbatim>\<open>strip\<close> on ASCII
  text, and a file system whose names have at most 255 bytes.
\<close>

definition simple_suffix :: "string \<Rightarrow> string" where
  "simple_suffix p = (if CHR ''.'' \<in> set p then CHR ''.'' # rev (takeWhile (\<lambda>c. c \<noteq> CHR ''.'') (rev p)) else [])"

definition small_loads :: "string \<Rightarrow> json option" where
  "small_loads t = (if t = ''{}'' then Some (JObj []) else if t = ''[]'' then Some (JArr []) else None)"

definition small_dump :: "json \<Rightarrow> string" where
  "small_dump j = (if j = JObj [] then ''{}'' else if j = JArr [] then ''[]'' else ''null'')"

definition quiet_env :: env where
  "quiet_env = \<lparr> search = (\<lambda>i topic n. Some []),
                 fetch = (\<lambda>url. GetRaises []),
                 json_loads = small_loads,
                 json_dump_indent = small_dump,
                 json_dumps = small_dump,
                 yaml_safe_load = (\<lambda>t. None),
                 re_findall_bullets = (\<lambda>t. []),
                 path_suffix = simple_suffix,
                 str_strip = ascii_strip,
                 name_too_long = (\<lambda>p. 255 < length p) \<rparr>"

definition created_env :: env where
  \<comment> \<open>every request is answered with status 201 and an empty page\<close>
  "created_env = quiet_env\<lparr>fetch := (\<lambda>url. Response 201 (Html []))\<rparr>"

definition one_url_env :: env where
  \<comment> \<open>every search finds the one URL \<open>u\<close>, every request times out\<close>
  "one_url_env = quiet_env\<lparr>search := (\<lambda>i topic n. Some [''u''])\<rparr>"

definition empty_title_page :: soup where
  \<comment> \<open>a page with an empty title element and one paragraph\<close>
  "empty_title_page = [\<lparr> tag_name = ''title'', get_text = [], tag_string = None \<rparr>,
                       \<lparr> tag_name = ''p'', get_text = ''x'', tag_string = Some ''x'' \<rparr>]"

definition empty_title_env :: env where
  \<comment> \<open>every request is answered with status 200 and that page\<close>
  "empty_title_env = quiet_env\<lparr>fetch := (\<lambda>url. Response 200 (Html empty_title_page))\<rparr>"

definition new_scraper :: scraper where
  \<comment> \<open>a first run: nothing discovered yet\<close>
  "new_scraper = \<lparr> num_websites = 10, topics = [''a''], urls_per_topic = 10,
                   master_urls = JObj [], completed_urls = JObj [], error_urls = JObj [],
                   disk = Map.empty, search_calls = [], fetch_calls = [] \<rparr>"

definition resumed_scraper :: scraper where
  \<comment> \<open>a later run: two URLs discovered, the first completed, the second pending\<close>
  "resumed_scraper = \<lparr> num_websites = 10, topics = [''b''], urls_per_topic = 10,
       master_urls = JObj [(''u'', JStr ''a''), (''v'', JStr ''a'')],
       completed_urls = JObj [(''u'', scrape_result ''u'' [])], error_urls = JObj [],
       disk = Map.empty, search_calls = [], fetch_calls = [] \<rparr>"

definition abc_scraper :: scraper where
  \<comment> \<open>what \<^verbatim>\<open>ScrapeMaster(10, 'a,b,c')\<close> builds in an empty directory\<close>
  "abc_scraper = \<lparr> num_websites = 10, topics = [''a'', ''b'', ''c''], urls_per_topic = 3,
           master_urls = JObj [], completed_urls = JObj [], error_urls = JObj [],
           disk = [output_dir \<mapsto> Dir], search_calls = [], fetch_calls = [] \<rparr>"

definition csv_disk :: fs where
  \<comment> \<open>a directory with the one file \<open>topics.csv\<close>\<close>
  "csv_disk = [''topics.csv'' \<mapsto> File ''a,b'']"

definition literal_run :: scraper where
  \<comment> \<open>what the run on the argument \<open>missing.txt\<close> leaves in an empty directory\<close>
  "literal_run = \<lparr> num_websites = 10, topics = [''missing.txt''], urls_per_topic = 10,
       master_urls = JObj [], completed_urls = JObj [], error_urls = JObj [],
       disk = [output_dir \<mapsto> Dir, master_file \<mapsto> File ''{}''],
       search_calls = [(''missing.txt'', 10)], fetch_calls = [] \<rparr>"

definition list_errors_disk :: fs where
  \<comment> \<open>the file of the failed-set holds the JSON document \<open>[]\<close>\<close>
  "list_errors_disk = [errors_file \<mapsto> File ''[]'']"

definition list_errors_scraper :: scraper where
  \<comment> \<open>what \<^verbatim>\<open>ScrapeMaster(10, 'a')\<close> builds in that directory\<close>
  "list_errors_scraper = \<lparr> num_websites = 10, topics = [''a''], urls_per_topic = 10,
       master_urls = JObj [], completed_urls = JObj [], error_urls = JArr [],
       disk = list_errors_disk(output_dir \<mapsto> Dir), search_calls = [], fetch_calls = [] \<rparr>"

definition timeout_env :: env where
  \<comment> \<open>the request for \<open>v\<close> times out, every other is answered with status 200 and an empty page\<close>
  "timeout_env = quiet_env\<lparr>fetch := (\<lambda>url. if url = ''v'' then GetRaises [] else Response 200 (Html []))\<rparr>"

definition pending_scraper :: scraper where
  \<comment> \<open>three URLs discovered, the first completed, the others pending\<close>
  "pending_scraper = \<lparr> num_websites = 10, topics = [''a''], urls_per_topic = 10,
       master_urls = JObj [(''u'', JStr ''a''), (''v'', JStr ''a''), (''w'', JStr ''a'')],
       completed_urls = JObj [(''u'', scrape_result ''u'' [])], error_urls = JObj [],
       disk = Map.empty, search_calls = [], fetch_calls = [] \<rparr>"

definition list_disk :: fs where
  \<comment> \<open>the file of the discovered-set holds the JSON document \<open>[]\<close>\<close>
  "list_disk = [master_file \<mapsto> File ''[]'']"

section \<open>Properties\<close>

subsection \<open>Dictionaries and strings\<close>

lemma keys_dict_set: "set (dict_keys (dict_set k v d)) = insert k (set (dict_keys d))"
  by (induction d) (auto simp: dict_keys_def)

lemma dict_keys_set:
  "dict_keys (dict_set k v d) = (if k \<in> set (dict_keys d) then dict_keys d else dict_keys d @ [k])"
  by (induction d) (auto simp: dict_keys_def)

lemma distinct_dict_set: "distinct (dict_keys d) \<Longrightarrow> distinct (dict_keys (dict_set k v d))"
  by (simp add: dict_keys_set)

lemma dict_get_set_same: "dict_get k (dict_set k v d) = Some v"
  by (induction d) auto

lemma dict_get_set_other: "k' \<noteq> k \<Longrightarrow> dict_get k' (dict_set k v d) = dict_get k' d"
  by (induction d) auto

lemma dict_get_set: "dict_get k' (dict_set k v d) = (if k' = k then Some v else dict_get k' d)"
  by (simp add: dict_get_set_same dict_get_set_other)

lemma dict_get_None: "dict_get k d = None \<longleftrightarrow> k \<notin> set (dict_keys d)"
  by (induction d) (auto simp: dict_keys_def)

lemma key_iff_get: "k \<in> set (dict_keys d) \<longleftrightarrow> dict_get k d \<noteq> None"
  by (simp add: dict_get_None)

lemma is_dictE:
  assumes "is_dict j"
  obtains d where "j = JObj d" and "distinct (dict_keys d)"
  using assms by (cases j) (auto simp: is_dict_def)

lemma length_split_on: "length (split_on c s) = Suc (count_list s c)"
  by (induction s) (auto split: list.splits)

lemma str_201: "str_int 201 = ''201''"
  by (simp add: str_int_def str_nat.simps digit_char_def)

subsection \<open>One fetch\<close>

lemma scrape_website_fails:
  "error_urls s = JObj er \<Longrightarrow> fetch_fails (fetch ev url) \<Longrightarrow>
   scrape_website ev url s =
     (Inr None, s\<lparr>fetch_calls := fetch_calls s @ [url],
                  error_urls := JObj (dict_set url (JStr (failure_reason (fetch ev url))) er)\<rparr>)"
  by (auto simp: scrape_website_def record_error_def fetch_fails_def failure_reason_def Let_def
           split: fetch_outcome.splits body.splits)

lemma scrape_website_succeeds:
  "\<not> fetch_fails (fetch ev url) \<Longrightarrow>
   scrape_website ev url s =
     (Inr (Some (scrape_result url (fetched_page (fetch ev url)))),
      s\<lparr>fetch_calls := fetch_calls s @ [url]\<rparr>)"
  by (auto simp: scrape_website_def fetch_fails_def fetched_page_def Let_def
           split: fetch_outcome.splits body.splits)

lemma scrape_website_frame:
  "scrape_website ev u s = (res, s1) \<Longrightarrow>
     search_calls s1 = search_calls s \<and> master_urls s1 = master_urls s \<and> topics s1 = topics s \<and>
     urls_per_topic s1 = urls_per_topic s \<and> disk s1 = disk s \<and>
     completed_urls s1 = completed_urls s \<and> fetch_calls s1 = fetch_calls s @ [u]"
  by (auto simp: scrape_website_def record_error_def Let_def
           split: fetch_outcome.splits body.splits if_splits sum.splits)

lemma truthy_result: "py_truthy (scrape_result url doc)"
  by (simp add: scrape_result_def Let_def)

text \<open>
  What \<^verbatim>\<open>scrape_website\<close> returns for a page: the URL, the content, and the title,
  which is the empty string when the page has no title element.
\<close>

lemma scrape_result_fields:
  "\<exists>title. scrape_result url doc =
     JObj [(''url'', JStr url), (''title'', title),
           (''content'', JStr (join '' '' (map get_text
              (filter (\<lambda>t. tag_name t \<in> {''p'', ''h1'', ''h2'', ''h3'', ''h4'', ''h5'', ''h6''}) doc))))] \<and>
     (soup_title doc = None \<longrightarrow> title = JStr []) \<and>
     (\<forall>t x. soup_title doc = Some t \<and> tag_string t = Some x \<longrightarrow> title = JStr x)"
  by (auto simp: scrape_result_def find_all_def Let_def split: option.splits)



text \<open>
  C5, amended. When the failed-set is a dict, \<^verbatim>\<open>scrape_website\<close> never raises: it
  returns the extraction result when the fetch succeeds and \<^verbatim>\<open>None\<close> when the request
  raises, the body cannot be read or the status is not 200; in that case the failed-set of
  the state it leaves maps the URL to the reason string.
\<close>

theorem failures_become_values:
  assumes "error_urls s = JObj er" and "scrape_website ev url s = (res, s')"
  shows "(\<exists>v. res = Inr v) \<and>
         (fetch_fails (fetch ev url) \<longrightarrow>
            res = Inr None \<and>
            lookup (error_urls s') url = Some (JStr (failure_reason (fetch ev url)))) \<and>
         (\<not> fetch_fails (fetch ev url) \<longrightarrow>
            res = Inr (Some (scrape_result url (fetched_page (fetch ev url)))) \<and>
            error_urls s' = error_urls s)"
proof (cases "fetch_fails (fetch ev url)")
  case True
  from scrape_website_fails [OF assms(1) True] assms(2) True show ?thesis
    by (auto simp: lookup_def dict_get_set_same)
next
  case False
  from scrape_website_succeeds [OF False, of s] assms(2) False show ?thesis
    by auto
qed

theorem failures_become_values_witness:
  "fst (scrape_website created_env ''u'' new_scraper) = Inr None \<and>
   lookup (error_urls (snd (scrape_website created_env ''u'' new_scraper))) ''u'' = Some (JStr ''HTTP 201'')"
proof -
  have dict: "error_urls new_scraper = JObj []"
    by (simp add: new_scraper_def)
  have call: "scrape_website created_env ''u'' new_scraper =
      (fst (scrape_website created_env ''u'' new_scraper), snd (scrape_website created_env ''u'' new_scraper))"
    by simp
  have fails: "fetch_fails (fetch created_env ''u'')"
    "failure_reason (fetch created_env ''u'') = ''HTTP 201''"
    by (simp_all add: created_env_def fetch_fails_def failure_reason_def str_201)
  from failures_become_values [OF dict call] fails show ?thesis by simp
qed

theorem failures_become_values_counterexample:
  "ScrapeMaster_init created_env list_errors_disk 10 ''a'' = Inr list_errors_scraper \<and>
   fetch created_env ''u'' = Response 201 (Html []) \<and>
   fst (scrape_website created_env ''u'' list_errors_scraper) = Inl TypeError"
proof -
  have "ScrapeMaster_init created_env list_errors_disk 10 ''a'' = Inr list_errors_scraper"
    by (simp add: ScrapeMaster_init_def Let_def created_env_def quiet_env_def small_loads_def
          ascii_strip_def is_ascii_space_def mkdir_exist_ok_def load_or_create_json_def
          is_present_def open_read_def list_errors_disk_def list_errors_scraper_def
          output_dir_def master_file_def completed_file_def errors_file_def)
  moreover have "fst (scrape_website created_env ''u'' list_errors_scraper) = Inl TypeError"
    by (simp add: scrape_website_def record_error_def created_env_def list_errors_scraper_def)
  ultimately show ?thesis by (simp add: created_env_def)
qed

text \<open>
  C9. On a page whose title element is empty, fetched with status 200, the title of the
  extraction result is \<^verbatim>\<open>None\<close> (\<open>null\<close> in the output), not a string.
\<close>

theorem empty_title_is_null:
  "fst (scrape_website empty_title_env ''u'' new_scraper) =
     Inr (Some (JObj [(''url'', JStr ''u''), (''title'', JNull), (''content'', JStr ''x'')]))"
  by (simp add: scrape_website_def empty_title_env_def quiet_env_def empty_title_page_def
        scrape_result_def find_all_def soup_title_def Let_def)

subsection \<open>The loop over the pending URLs\<close>

lemma pending_dicts:
  "pending_urls (JObj c) (JObj e) ks =
     Inr (filter (\<lambda>u. u \<notin> set (dict_keys c) \<and> u \<notin> set (dict_keys e)) ks)"
  by (induction ks) (auto split: bool.splits)

lemma pending_of_dicts:
  assumes "is_dict c" and "is_dict e"
  shows "\<exists>p. pending_urls c e ks = Inr p \<and> p = filter (\<lambda>u. u \<notin> keys_of c \<and> u \<notin> keys_of e) ks"
  using assms by (auto elim!: is_dictE simp: pending_dicts keys_of_def)

lemma turn_fails:
  "error_urls s = JObj er \<Longrightarrow> fetch_fails (fetch ev url) \<Longrightarrow>
   process_pending ev (url # urls) s = process_pending ev urls (failed_turn ev url s er)"
  by (simp add: scrape_website_fails failed_turn_def)

lemma turn_succeeds:
  "completed_urls s = JObj c \<Longrightarrow> \<not> fetch_fails (fetch ev url) \<Longrightarrow>
   process_pending ev (url # urls) s = process_pending ev urls (completed_turn ev url s c)"
  by (simp add: scrape_website_succeeds truthy_result completed_turn_def Let_def)

lemma failed_turn_fields:
  "completed_urls (failed_turn ev u s er) = completed_urls s"
  "error_urls (failed_turn ev u s er) = JObj (dict_set u (JStr (failure_reason (fetch ev u))) er)"
  "master_urls (failed_turn ev u s er) = master_urls s"
  "fetch_calls (failed_turn ev u s er) = fetch_calls s @ [u]"
  "search_calls (failed_turn ev u s er) = search_calls s"
  "topics (failed_turn ev u s er) = topics s"
  "urls_per_topic (failed_turn ev u s er) = urls_per_topic s"
  "disk (failed_turn ev u s er) master_file = disk s master_file"
  "disk (failed_turn ev u s er) output_file = disk s output_file"
  by (simp_all add: failed_turn_def save_progress_def write_file_def
        master_file_def completed_file_def errors_file_def output_file_def)

lemma completed_turn_fields:
  "completed_urls (completed_turn ev u s c) =
     JObj (dict_set u (scrape_result u (fetched_page (fetch ev u))) c)"
  "error_urls (completed_turn ev u s c) = error_urls s"
  "master_urls (completed_turn ev u s c) = master_urls s"
  "fetch_calls (completed_turn ev u s c) = fetch_calls s @ [u]"
  "search_calls (completed_turn ev u s c) = search_calls s"
  "topics (completed_turn ev u s c) = topics s"
  "urls_per_topic (completed_turn ev u s c) = urls_per_topic s"
  "disk (completed_turn ev u s c) master_file = disk s master_file"
  "disk (completed_turn ev u s c) output_file =
     Some (File ((case disk s output_file of Some (File old) \<Rightarrow> old | _ \<Rightarrow> [])
        @ json_dumps ev (scrape_result u (fetched_page (fetch ev u))) @ [CHR 0x0A]))"
  by (simp_all add: completed_turn_def save_progress_def write_file_def append_file_def Let_def
        master_file_def completed_file_def errors_file_def output_file_def)

text \<open>One turn of the loop on dict stores, as a rule for proofs about the whole loop.\<close>

lemma loop_cases [consumes 2, case_names Fails Succeeds]:
  assumes "completed_urls s = JObj c" and "error_urls s = JObj e"
    and "fetch_fails (fetch ev u) \<Longrightarrow>
           process_pending ev (u # p) s = process_pending ev p (failed_turn ev u s e) \<Longrightarrow>
           completed_urls (failed_turn ev u s e) = JObj c \<Longrightarrow>
           error_urls (failed_turn ev u s e) = JObj (dict_set u (JStr (failure_reason (fetch ev u))) e) \<Longrightarrow> Q"
    and "\<not> fetch_fails (fetch ev u) \<Longrightarrow>
           process_pending ev (u # p) s = process_pending ev p (completed_turn ev u s c) \<Longrightarrow>
           completed_urls (completed_turn ev u s c) =
             JObj (dict_set u (scrape_result u (fetched_page (fetch ev u))) c) \<Longrightarrow>
           error_urls (completed_turn ev u s c) = JObj e \<Longrightarrow> Q"
  shows Q
proof (cases "fetch_fails (fetch ev u)")
  case True
  show ?thesis
  proof (rule assms(3))
    show "fetch_fails (fetch ev u)" by fact
    show "process_pending ev (u # p) s = process_pending ev p (failed_turn ev u s e)"
      using assms(2) True by (rule turn_fails)
    show "completed_urls (failed_turn ev u s e) = JObj c"
      by (simp add: failed_turn_fields assms(1))
    show "error_urls (failed_turn ev u s e) = JObj (dict_set u (JStr (failure_reason (fetch ev u))) e)"
      by (simp add: failed_turn_fields)
  qed
next
  case False
  show ?thesis
  proof (rule assms(4))
    show "\<not> fetch_fails (fetch ev u)" by fact
    show "process_pending ev (u # p) s = process_pending ev p (completed_turn ev u s c)"
      using assms(1) False by (rule turn_succeeds)
    show "completed_urls (completed_turn ev u s c) =
            JObj (dict_set u (scrape_result u (fetched_page (fetch ev u))) c)"
      by (simp add: completed_turn_fields)
    show "error_urls (completed_turn ev u s c) = JObj e"
      by (simp add: completed_turn_fields assms(2))
  qed
qed

lemma single_turn:
  assumes "completed_urls s = JObj c" and "error_urls s = JObj e"
  shows "process_pending ev [url] s =
           (None, if fetch_fails (fetch ev url) then failed_turn ev url s e
                  else completed_turn ev url s c)"
  using assms(1,2)
proof (cases rule: loop_cases [where ev = ev and u = url and p = "[]"])
  case Fails
  then show ?thesis by (simp only: process_pending.simps if_True)
next
  case Succeeds
  then show ?thesis by (simp only: process_pending.simps if_False)
qed

lemma loop_total:
  "completed_urls s = JObj c \<Longrightarrow> error_urls s = JObj e \<Longrightarrow>
   \<exists>s' c' e'. process_pending ev p s = (None, s') \<and> completed_urls s' = JObj c' \<and> error_urls s' = JObj e'"
proof (induction p arbitrary: s c e)
  case Nil
  then show ?case by simp
next
  case (Cons u p)
  from Cons.prems show ?case
  proof (cases rule: loop_cases [where ev = ev and u = u and p = p])
    case Fails
    from Cons.IH [OF Fails(3,4)] show ?thesis by (simp only: Fails(2))
  next
    case Succeeds
    from Cons.IH [OF Succeeds(3,4)] show ?thesis by (simp only: Succeeds(2))
  qed
qed

lemma loop_frame:
  "completed_urls s = JObj c \<Longrightarrow> error_urls s = JObj e \<Longrightarrow> process_pending ev p s = (r, s') \<Longrightarrow>
   fetch_calls s' = fetch_calls s @ p \<and> search_calls s' = search_calls s \<and>
   master_urls s' = master_urls s \<and> topics s' = topics s \<and> urls_per_topic s' = urls_per_topic s \<and>
   disk s' master_file = disk s master_file"
proof (induction p arbitrary: s c e)
  case Nil
  then show ?case by simp
next
  case (Cons u p)
  from Cons.prems(1,2) show ?case
  proof (cases rule: loop_cases [where ev = ev and u = u and p = p])
    case Fails
    from Cons.prems(3) have "process_pending ev p (failed_turn ev u s e) = (r, s')"
      by (simp only: Fails(2))
    from Cons.IH [OF Fails(3,4) this] show ?thesis by (simp add: failed_turn_fields)
  next
    case Succeeds
    from Cons.prems(3) have "process_pending ev p (completed_turn ev u s c) = (r, s')"
      by (simp only: Succeeds(2))
    from Cons.IH [OF Succeeds(3,4) this] show ?thesis by (simp add: completed_turn_fields)
  qed
qed

lemma loop_errors:
  "completed_urls s = JObj c \<Longrightarrow> error_urls s = JObj e \<Longrightarrow> process_pending ev p s = (r, s') \<Longrightarrow>
   \<exists>e'. error_urls s' = JObj e' \<and>
     (\<forall>u. dict_get u e' =
        (if u \<in> set p \<and> fetch_fails (fetch ev u) then Some (JStr (failure_reason (fetch ev u)))
         else dict_get u e)) \<and>
     (distinct (dict_keys e) \<longrightarrow> distinct (dict_keys e'))"
proof (induction p arbitrary: s c e)
  case Nil
  then show ?case by simp
next
  case (Cons u p)
  from Cons.prems(1,2) show ?case
  proof (cases rule: loop_cases [where ev = ev and u = u and p = p])
    case Fails
    from Cons.prems(3) have "process_pending ev p (failed_turn ev u s e) = (r, s')"
      by (simp only: Fails(2))
    from Cons.IH [OF Fails(3,4) this] Fails(1) show ?thesis
      by (auto simp: dict_get_set distinct_dict_set)
  next
    case Succeeds
    from Cons.prems(3) have "process_pending ev p (completed_turn ev u s c) = (r, s')"
      by (simp only: Succeeds(2))
    from Cons.IH [OF Succeeds(3,4) this] Succeeds(1) show ?thesis
      by auto
  qed
qed

lemma loop_completed:
  "completed_urls s = JObj c \<Longrightarrow> error_urls s = JObj e \<Longrightarrow> process_pending ev p s = (r, s') \<Longrightarrow>
   \<exists>c'. completed_urls s' = JObj c' \<and>
     (\<forall>u. dict_get u c' =
        (if u \<in> set p \<and> \<not> fetch_fails (fetch ev u)
         then Some (scrape_result u (fetched_page (fetch ev u)))
         else dict_get u c)) \<and>
     (distinct (dict_keys c) \<longrightarrow> distinct (dict_keys c'))"
proof (induction p arbitrary: s c e)
  case Nil
  then show ?case by simp
next
  case (Cons u p)
  from Cons.prems(1,2) show ?case
  proof (cases rule: loop_cases [where ev = ev and u = u and p = p])
    case Fails
    from Cons.prems(3) have "process_pending ev p (failed_turn ev u s e) = (r, s')"
      by (simp only: Fails(2))
    from Cons.IH [OF Fails(3,4) this] Fails(1) show ?thesis
      by auto
  next
    case Succeeds
    from Cons.prems(3) have "process_pending ev p (completed_turn ev u s c) = (r, s')"
      by (simp only: Succeeds(2))
    from Cons.IH [OF Succeeds(3,4) this] Succeeds(1) show ?thesis
      by (auto simp: dict_get_set distinct_dict_set)
  qed
qed

lemma loop_keys:
  assumes "is_dict (completed_urls s)" and "is_dict (error_urls s)"
    and "process_pending ev p s = (r, s')"
  shows "r = None \<and> is_dict (completed_urls s') \<and> is_dict (error_urls s') \<and>
         keys_of (completed_urls s') =
           keys_of (completed_urls s) \<union> {u \<in> set p. \<not> fetch_fails (fetch ev u)} \<and>
         keys_of (error_urls s') =
           keys_of (error_urls s) \<union> {u \<in> set p. fetch_fails (fetch ev u)}"
proof -
  from assms(1) obtain c where c: "completed_urls s = JObj c" "distinct (dict_keys c)"
    by (rule is_dictE)
  from assms(2) obtain e where e: "error_urls s = JObj e" "distinct (dict_keys e)"
    by (rule is_dictE)
  from loop_total [OF c(1) e(1), of ev p] assms(3) have r: "r = None" by auto
  from loop_completed [OF c(1) e(1) assms(3)] c(2) obtain c' where
    c': "completed_urls s' = JObj c'" "distinct (dict_keys c')"
      "\<And>u. dict_get u c' = (if u \<in> set p \<and> \<not> fetch_fails (fetch ev u)
          then Some (scrape_result u (fetched_page (fetch ev u))) else dict_get u c)"
    by auto
  from loop_errors [OF c(1) e(1) assms(3)] e(2) obtain e' where
    e': "error_urls s' = JObj e'" "distinct (dict_keys e')"
      "\<And>u. dict_get u e' = (if u \<in> set p \<and> fetch_fails (fetch ev u)
          then Some (JStr (failure_reason (fetch ev u))) else dict_get u e)"
    by auto
  have "set (dict_keys c') = set (dict_keys c) \<union> {u \<in> set p. \<not> fetch_fails (fetch ev u)}"
    by (auto simp: key_iff_get c'(3) split: if_splits)
  moreover have "set (dict_keys e') = set (dict_keys e) \<union> {u \<in> set p. fetch_fails (fetch ev u)}"
    by (auto simp: key_iff_get e'(3) split: if_splits)
  ultimately show ?thesis
    using r c c' e e' by (simp add: is_dict_def keys_of_def)
qed

lemma loop_output:
  "completed_urls s = JObj c \<Longrightarrow> error_urls s = JObj e \<Longrightarrow> process_pending ev p s = (r, s') \<Longrightarrow>
   file_text (disk s') output_file =
     file_text (disk s) output_file @ concat (map (output_line ev) (appended_urls ev p))"
proof (induction p arbitrary: s c e)
  case Nil
  then show ?case by (simp add: appended_urls_def)
next
  case (Cons u p)
  from Cons.prems(1,2) show ?case
  proof (cases rule: loop_cases [where ev = ev and u = u and p = p])
    case Fails
    from Cons.prems(3) have "process_pending ev p (failed_turn ev u s e) = (r, s')"
      by (simp only: Fails(2))
    from Cons.IH [OF Fails(3,4) this] Fails(1) show ?thesis
      by (simp add: failed_turn_fields file_text_def appended_urls_def)
  next
    case Succeeds
    from Cons.prems(3) have "process_pending ev p (completed_turn ev u s c) = (r, s')"
      by (simp only: Succeeds(2))
    from Cons.IH [OF Succeeds(3,4) this] Succeeds(1) show ?thesis
      by (simp add: completed_turn_fields file_text_def appended_urls_def output_line_def)
  qed
qed

lemma save_progress_frame:
  "search_calls (save_progress ev s) = search_calls s"
  "master_urls (save_progress ev s) = master_urls s"
  "topics (save_progress ev s) = topics s"
  "urls_per_topic (save_progress ev s) = urls_per_topic s"
  "disk (save_progress ev s) master_file = disk s master_file"
  by (simp_all add: save_progress_def write_file_def master_file_def completed_file_def errors_file_def)

lemma append_file_master: "append_file d output_file t master_file = d master_file"
  by (simp add: append_file_def master_file_def output_file_def)

lemma loop_frame_any:
  "process_pending ev p s = (r, s') \<Longrightarrow>
     search_calls s' = search_calls s \<and> master_urls s' = master_urls s \<and> topics s' = topics s \<and>
     urls_per_topic s' = urls_per_topic s \<and> disk s' master_file = disk s master_file"
proof (induction p arbitrary: s)
  case Nil
  then show ?case by simp
next
  case (Cons u p)
  obtain res s1 where sw: "scrape_website ev u s = (res, s1)"
    by (cases "scrape_website ev u s")
  note f = scrape_website_frame [OF sw]
  show ?case
  proof (cases res)
    case (Inl e)
    with Cons.prems sw f show ?thesis by simp
  next
    case (Inr v)
    show ?thesis
    proof (cases v)
      case None
      with Cons.prems sw Inr have "process_pending ev p (save_progress ev s1) = (r, s')" by simp
      from Cons.IH [OF this] f show ?thesis by (simp add: save_progress_frame)
    next
      case (Some result)
      show ?thesis
      proof (cases "py_truthy result")
        case False
        with Cons.prems sw Inr Some have "process_pending ev p (save_progress ev s1) = (r, s')" by simp
        from Cons.IH [OF this] f show ?thesis by (simp add: save_progress_frame)
      next
        case True
        show ?thesis
        proof (cases "py_setitem (completed_urls s1) u result")
          case (Inl e)
          with Cons.prems sw Inr Some True f show ?thesis by simp
        next
          case (Inr c)
          let ?s2 = "s1\<lparr>completed_urls := c,
                         disk := append_file (disk s1) output_file (json_dumps ev result @ [CHR 0x0A])\<rparr>"
          from Cons.prems sw \<open>res = Inr v\<close> Some True Inr
          have "process_pending ev p (save_progress ev ?s2) = (r, s')" by simp
          from Cons.IH [OF this] f show ?thesis
            by (simp add: save_progress_frame append_file_master)
        qed
      qed
    qed
  qed
qed

subsection \<open>The collection of URLs\<close>

lemma assign_dict:
  "\<exists>m'. assign_topic t urls (JObj m) = Inr (JObj m') \<and>
         set (dict_keys m') = set (dict_keys m) \<union> set urls \<and>
         (distinct (dict_keys m) \<longrightarrow> distinct (dict_keys m'))"
proof (induction urls arbitrary: m)
  case Nil
  then show ?case by simp
next
  case (Cons u urls)
  from Cons.IH [of "dict_set u (JStr t) m"] show ?case
    by (auto simp: keys_dict_set distinct_dict_set)
qed

lemma search_google_fields:
  "search_google ev t s = (urls, s1) \<Longrightarrow>
     master_urls s1 = master_urls s \<and> completed_urls s1 = completed_urls s \<and>
     error_urls s1 = error_urls s \<and> fetch_calls s1 = fetch_calls s \<and> topics s1 = topics s \<and>
     urls_per_topic s1 = urls_per_topic s \<and> disk s1 = disk s \<and>
     search_calls s1 = search_calls s @ [(t, urls_per_topic s)]"
  by (auto simp: search_google_def search_google_sync_def Let_def split: option.splits)

lemma collect_frame:
  "collect_urls ev ts s = (r, s') \<Longrightarrow>
     completed_urls s' = completed_urls s \<and> error_urls s' = error_urls s \<and>
     fetch_calls s' = fetch_calls s \<and> topics s' = topics s \<and>
     urls_per_topic s' = urls_per_topic s \<and>
     (\<exists>k\<le>length ts. search_calls s' = search_calls s @ map (\<lambda>t. (t, urls_per_topic s)) (take k ts))"
proof (induction ts arbitrary: s)
  case Nil
  then show ?case by simp
next
  case (Cons t ts)
  obtain urls s1 where sg: "search_google ev t s = (urls, s1)"
    by (cases "search_google ev t s")
  note f = search_google_fields [OF sg]
  show ?case
  proof (cases "assign_topic t urls (master_urls s1)")
    case (Inl e)
    with Cons.prems sg have "s' = s1" by simp
    with f show ?thesis by (intro conjI exI [of _ 1]) simp_all
  next
    case (Inr m)
    let ?s2 = "s1\<lparr>master_urls := m, disk := write_file (disk s1) master_file (json_dump_indent ev m)\<rparr>"
    from Cons.prems sg Inr have "collect_urls ev ts ?s2 = (r, s')" by simp
    from Cons.IH [OF this] obtain k where k: "k \<le> length ts"
      "search_calls s' = search_calls ?s2 @ map (\<lambda>t. (t, urls_per_topic ?s2)) (take k ts)"
      and rest: "completed_urls s' = completed_urls ?s2" "error_urls s' = error_urls ?s2"
        "fetch_calls s' = fetch_calls ?s2" "topics s' = topics ?s2" "urls_per_topic s' = urls_per_topic ?s2"
      by auto
    from k rest f show ?thesis by (intro conjI exI [of _ "Suc k"]) simp_all
  qed
qed

lemma collect_dict:
  "master_urls s = JObj m \<Longrightarrow>
   \<exists>s' m'. collect_urls ev ts s = (None, s') \<and> master_urls s' = JObj m' \<and>
     (distinct (dict_keys m) \<longrightarrow> distinct (dict_keys m')) \<and>
     search_calls s' = search_calls s @ map (\<lambda>t. (t, urls_per_topic s)) ts"
proof (induction ts arbitrary: s m)
  case Nil
  then show ?case by simp
next
  case (Cons t ts)
  obtain urls s1 where sg: "search_google ev t s = (urls, s1)"
    by (cases "search_google ev t s")
  note f = search_google_fields [OF sg]
  from assign_dict [of t urls m] obtain m1 where m1: "assign_topic t urls (JObj m) = Inr (JObj m1)"
    "distinct (dict_keys m) \<longrightarrow> distinct (dict_keys m1)" by blast
  let ?s2 = "s1\<lparr>master_urls := JObj m1, disk := write_file (disk s1) master_file (json_dump_indent ev (JObj m1))\<rparr>"
  have "master_urls ?s2 = JObj m1" by simp
  from Cons.IH [OF this] obtain s' m' where
    "collect_urls ev ts ?s2 = (None, s')" "master_urls s' = JObj m'"
    "distinct (dict_keys m1) \<longrightarrow> distinct (dict_keys m')"
    "search_calls s' = search_calls ?s2 @ map (\<lambda>t. (t, urls_per_topic ?s2)) ts" by blast
  with sg f m1 Cons.prems show ?case by simp
qed

lemma collect_output:
  "collect_urls ev ts s = (r, s') \<Longrightarrow> disk s' output_file = disk s output_file"
proof (induction ts arbitrary: s)
  case Nil
  then show ?case by simp
next
  case (Cons t ts)
  obtain urls s1 where sg: "search_google ev t s = (urls, s1)"
    by (cases "search_google ev t s")
  note f = search_google_fields [OF sg]
  show ?case
  proof (cases "assign_topic t urls (master_urls s1)")
    case (Inl e)
    with Cons.prems sg f show ?thesis by simp
  next
    case (Inr m)
    let ?s2 = "s1\<lparr>master_urls := m, disk := write_file (disk s1) master_file (json_dump_indent ev m)\<rparr>"
    from Cons.prems sg Inr have "collect_urls ev ts ?s2 = (r, s')" by simp
    from Cons.IH [OF this] f show ?thesis
      by (simp add: write_file_def master_file_def output_file_def)
  qed
qed

subsection \<open>The run\<close>

lemma process_urls_searches:
  assumes "process_urls ev s = (r, s')"
  shows "\<exists>k\<le>length (topics s).
           search_calls s' = search_calls s @ map (\<lambda>t. (t, urls_per_topic s)) (take k (topics s))"
proof -
  obtain r1 s1 where c: "(if \<not> py_truthy (master_urls s) then collect_urls ev (topics s) s else (None, s)) = (r1, s1)"
    by (cases "if \<not> py_truthy (master_urls s) then collect_urls ev (topics s) s else (None, s)")
  have s1: "\<exists>k\<le>length (topics s).
           search_calls s1 = search_calls s @ map (\<lambda>t. (t, urls_per_topic s)) (take k (topics s))"
  proof (cases "py_truthy (master_urls s)")
    case True
    with c have "s1 = s" by simp
    then show ?thesis by (intro exI [of _ 0]) simp
  next
    case False
    with c have "collect_urls ev (topics s) s = (r1, s1)" by simp
    from collect_frame [OF this] show ?thesis by blast
  qed
  have "search_calls s' = search_calls s1"
  proof (cases r1)
    case (Some e)
    with assms c show ?thesis by (simp add: process_urls_def)
  next
    case None
    note r1 = None
    show ?thesis
    proof (cases "py_keys (master_urls s1)")
      case (Inl e)
      with assms c r1 show ?thesis by (simp add: process_urls_def)
    next
      case (Inr ks)
      note ks = Inr
      show ?thesis
      proof (cases "pending_urls (completed_urls s1) (error_urls s1) ks")
        case (Inl e)
        with assms c r1 ks show ?thesis by (simp add: process_urls_def)
      next
        case (Inr p)
        with assms c r1 ks have "process_pending ev p s1 = (r, s')" by (simp add: process_urls_def)
        from loop_frame_any [OF this] show ?thesis by simp
      qed
    qed
  qed
  with s1 show ?thesis by simp
qed

text \<open>
  What a run does on dict stores: it ends without an exception, the discovered-set stays
  a dict, the pending list is the discovered keys that are in neither of the two other
  sets, and the loop goes through all of it.
\<close>

lemma run_on_dicts:
  assumes "is_dict (master_urls s)" and "is_dict (completed_urls s)" and "is_dict (error_urls s)"
  shows "\<exists>s1 m' p s'.
           (if \<not> py_truthy (master_urls s) then collect_urls ev (topics s) s else (None, s)) = (None, s1) \<and>
           master_urls s1 = JObj m' \<and> distinct (dict_keys m') \<and>
           completed_urls s1 = completed_urls s \<and> error_urls s1 = error_urls s \<and>
           fetch_calls s1 = fetch_calls s \<and> disk s1 output_file = disk s output_file \<and>
           pending_urls (completed_urls s) (error_urls s) (dict_keys m') = Inr p \<and>
           p = filter (\<lambda>u. u \<notin> keys_of (completed_urls s) \<and> u \<notin> keys_of (error_urls s)) (dict_keys m') \<and>
           process_urls ev s = (None, s') \<and> process_pending ev p s1 = (None, s') \<and>
           master_urls s' = JObj m' \<and> fetch_calls s' = fetch_calls s @ p"
proof -
  from assms(1) obtain m where m: "master_urls s = JObj m" "distinct (dict_keys m)"
    by (rule is_dictE)
  from assms(2) obtain c where c: "completed_urls s = JObj c" by (rule is_dictE)
  from assms(3) obtain e where e: "error_urls s = JObj e" by (rule is_dictE)
  obtain r1 s1 where c1: "(if \<not> py_truthy (master_urls s) then collect_urls ev (topics s) s else (None, s)) = (r1, s1)"
    by (cases "if \<not> py_truthy (master_urls s) then collect_urls ev (topics s) s else (None, s)")
  have s1: "r1 = None \<and> (\<exists>m'. master_urls s1 = JObj m' \<and> distinct (dict_keys m')) \<and>
            completed_urls s1 = completed_urls s \<and> error_urls s1 = error_urls s \<and>
            fetch_calls s1 = fetch_calls s \<and> disk s1 output_file = disk s output_file"
  proof (cases "py_truthy (master_urls s)")
    case True
    with c1 m show ?thesis by auto
  next
    case False
    with c1 have cu: "collect_urls ev (topics s) s = (r1, s1)" by simp
    from collect_dict [OF m(1), of ev "topics s"] cu m(2)
    have "r1 = None \<and> (\<exists>m'. master_urls s1 = JObj m' \<and> distinct (dict_keys m'))" by auto
    with collect_frame [OF cu] collect_output [OF cu] show ?thesis by simp
  qed
  then obtain m' where m': "master_urls s1 = JObj m'" "distinct (dict_keys m')" by blast
  from pending_of_dicts [OF assms(2,3), of "dict_keys m'"] obtain p where
    p: "pending_urls (completed_urls s) (error_urls s) (dict_keys m') = Inr p"
       "p = filter (\<lambda>u. u \<notin> keys_of (completed_urls s) \<and> u \<notin> keys_of (error_urls s)) (dict_keys m')"
    by blast
  have cs1: "completed_urls s1 = JObj c" "error_urls s1 = JObj e" using s1 c e by simp_all
  from loop_total [OF cs1, of ev p] obtain s' where s': "process_pending ev p s1 = (None, s')"
    by blast
  from loop_frame [OF cs1 s'] m' s1 have ms': "master_urls s' = JObj m'"
    "fetch_calls s' = fetch_calls s @ p" by simp_all
  have "process_urls ev s = (None, s')"
    using c1 s1 m' p(1) s' by (simp add: process_urls_def)
  with c1 s1 m' p s' ms' show ?thesis by simp
qed

text \<open>
  C3. When the discovered-set is non-empty at the start of \<^verbatim>\<open>process_urls\<close> (the test
  \<^verbatim>\<open>not self.master_urls\<close> is false), the run makes no search, whatever the topics are,
  and leaves the discovered-set as it was, in memory and in its file.
\<close>

theorem discovery_skipped:
  assumes "py_truthy (master_urls s)" and "process_urls ev s = (r, s')"
  shows "search_calls s' = search_calls s \<and> master_urls s' = master_urls s \<and>
         disk s' master_file = disk s master_file"
proof (cases "py_keys (master_urls s)")
  case (Inl e)
  with assms show ?thesis by (simp add: process_urls_def)
next
  case (Inr ks)
  show ?thesis
  proof (cases "pending_urls (completed_urls s) (error_urls s) ks")
    case (Inl e)
    with assms Inr show ?thesis by (simp add: process_urls_def)
  next
    case (Inr p)
    with assms \<open>py_keys (master_urls s) = Inr ks\<close>
    have "process_pending ev p s = (r, s')" by (simp add: process_urls_def)
    from loop_frame_any [OF this] show ?thesis by simp
  qed
qed

theorem discovery_skipped_witness:
  "search_calls (snd (process_urls one_url_env resumed_scraper)) = [] \<and>
   master_urls (snd (process_urls one_url_env resumed_scraper)) =
     JObj [(''u'', JStr ''a''), (''v'', JStr ''a'')]"
proof -
  have nonempty: "py_truthy (master_urls resumed_scraper)"
    by (simp add: resumed_scraper_def)
  have run: "process_urls one_url_env resumed_scraper =
      (fst (process_urls one_url_env resumed_scraper), snd (process_urls one_url_env resumed_scraper))"
    by simp
  from discovery_skipped [OF nonempty run] show ?thesis
    by (simp add: resumed_scraper_def)
qed


lemma resumed_run:
  "error_urls (snd (process_urls quiet_env resumed_scraper)) = JObj [(''v'', JStr [])]"
  "completed_urls (snd (process_urls quiet_env resumed_scraper)) = JObj [(''u'', scrape_result ''u'' [])]"
  "fetch_calls (snd (process_urls quiet_env resumed_scraper)) = [''v'']"
  by (simp_all add: process_urls_def resumed_scraper_def quiet_env_def dict_keys_def
        scrape_website_def record_error_def save_progress_def Let_def)




text \<open>
  On dict stores a run ends without an exception and hands every pending URL to
  \<^verbatim>\<open>scrape_website\<close>, whichever of them fail. After the run a pending URL whose fetch
  failed is a key of the failed-set, mapped to the reason string: the \<^verbatim>\<open>str\<close> of the
  exception or \<^verbatim>\<open>HTTP <status>\<close>. The URL is not a key of the completed-set, and the
  lines the run appends to the output file are those of the pending URLs whose fetch
  succeeded, so none is for this URL.
\<close>

lemma isolation_on_dicts:
  assumes "is_dict (master_urls s)" and "is_dict (completed_urls s)" and "is_dict (error_urls s)"
  shows "\<exists>m' p s'. process_urls ev s = (None, s') \<and> master_urls s' = JObj m' \<and>
           pending_urls (completed_urls s) (error_urls s) (dict_keys m') = Inr p \<and>
           fetch_calls s' = fetch_calls s @ p \<and>
           file_text (disk s') output_file =
             file_text (disk s) output_file @ concat (map (output_line ev) (appended_urls ev p)) \<and>
           (\<forall>u \<in> set p. fetch_fails (fetch ev u) \<longrightarrow>
              lookup (error_urls s') u = Some (JStr (failure_reason (fetch ev u))) \<and>
              (failure_reason (fetch ev u) = [] \<longrightarrow>
                 fetch ev u = GetRaises [] \<or> fetch ev u = Response 200 (TextRaises [])) \<and>
              u \<notin> keys_of (completed_urls s') \<and> u \<notin> set (appended_urls ev p))"
proof -
  from assms(2) obtain c where c: "completed_urls s = JObj c" by (rule is_dictE)
  from assms(3) obtain e where e: "error_urls s = JObj e" by (rule is_dictE)
  from run_on_dicts [OF assms, of ev] obtain s1 m' p s' where
    s1: "completed_urls s1 = completed_urls s" "error_urls s1 = error_urls s"
        "fetch_calls s1 = fetch_calls s" "disk s1 output_file = disk s output_file"
    and p: "pending_urls (completed_urls s) (error_urls s) (dict_keys m') = Inr p"
       "p = filter (\<lambda>u. u \<notin> keys_of (completed_urls s) \<and> u \<notin> keys_of (error_urls s)) (dict_keys m')"
    and run: "process_urls ev s = (None, s')" "process_pending ev p s1 = (None, s')"
    and m': "master_urls s' = JObj m'"
    by blast
  have cs1: "completed_urls s1 = JObj c" "error_urls s1 = JObj e" using s1 c e by simp_all
  have calls: "fetch_calls s' = fetch_calls s @ p"
    using loop_frame [OF cs1 run(2)] s1 by simp
  have out: "file_text (disk s') output_file =
      file_text (disk s) output_file @ concat (map (output_line ev) (appended_urls ev p))"
    using loop_output [OF cs1 run(2)] s1 by (simp add: file_text_def)
  have each: "lookup (error_urls s') u = Some (JStr (failure_reason (fetch ev u))) \<and>
              (failure_reason (fetch ev u) = [] \<longrightarrow>
                 fetch ev u = GetRaises [] \<or> fetch ev u = Response 200 (TextRaises [])) \<and>
              u \<notin> keys_of (completed_urls s') \<and> u \<notin> set (appended_urls ev p)"
    if u: "u \<in> set p" "fetch_fails (fetch ev u)" for u
  proof -
    from loop_errors [OF cs1 run(2)] u
    have "lookup (error_urls s') u = Some (JStr (failure_reason (fetch ev u)))"
      by (auto simp: lookup_def)
    moreover have "failure_reason (fetch ev u) = [] \<longrightarrow>
        fetch ev u = GetRaises [] \<or> fetch ev u = Response 200 (TextRaises [])"
      using u(2) by (auto simp: failure_reason_def fetch_fails_def split: fetch_outcome.splits body.splits)
    moreover from u(1) p(2) have "u \<notin> keys_of (completed_urls s)" by simp
    with loop_keys [OF _ _ run(2)] assms(2,3) s1 u(2)
    have "u \<notin> keys_of (completed_urls s')" by simp
    moreover have "u \<notin> set (appended_urls ev p)" using u(2) by (simp add: appended_urls_def)
    ultimately show ?thesis by blast
  qed
  from run(1) m' p(1) calls out each show ?thesis by blast
qed

text \<open>
  C6. A run with two pending URLs of which the first times out: the second is still
  fetched and completed, and the first is in the failed-set and not in the completed-set,
  but the reason string stored for it is empty.
\<close>

theorem timeout_reason_is_empty:
  "pending_urls (completed_urls pending_scraper) (error_urls pending_scraper) [''u'', ''v'', ''w'']
     = Inr [''v'', ''w''] \<and>
   fetch timeout_env ''v'' = GetRaises [] \<and>
   fst (process_urls timeout_env pending_scraper) = None \<and>
   fetch_calls (snd (process_urls timeout_env pending_scraper)) = [''v'', ''w''] \<and>
   keys_of (completed_urls (snd (process_urls timeout_env pending_scraper))) = {''u'', ''w''} \<and>
   lookup (error_urls (snd (process_urls timeout_env pending_scraper))) ''v'' = Some (JStr [])"
proof -
  have run: "fst (process_urls timeout_env pending_scraper) = None"
    "fetch_calls (snd (process_urls timeout_env pending_scraper)) = [''v'', ''w'']"
    "completed_urls (snd (process_urls timeout_env pending_scraper)) =
       JObj [(''u'', scrape_result ''u'' []), (''w'', scrape_result ''w'' [])]"
    "error_urls (snd (process_urls timeout_env pending_scraper)) = JObj [(''v'', JStr [])]"
    by (simp_all add: process_urls_def pending_scraper_def timeout_env_def quiet_env_def
          dict_keys_def scrape_website_def record_error_def save_progress_def Let_def
          scrape_result_def find_all_def soup_title_def)
  have pending: "pending_urls (completed_urls pending_scraper) (error_urls pending_scraper)
      [''u'', ''v'', ''w''] = Inr [''v'', ''w'']"
    by (simp add: pending_scraper_def dict_keys_def)
  have "fetch timeout_env ''v'' = GetRaises []"
    by (simp add: timeout_env_def)
  with pending show ?thesis
    by (simp add: run keys_of_def lookup_def dict_keys_def insert_commute)
qed

subsection \<open>Exclusive sets\<close>

lemma exclusive_loop:
  assumes "exclusive s" and "process_pending ev p s = (r, s')"
    and "set p \<inter> (keys_of (completed_urls s) \<union> keys_of (error_urls s)) = {}"
  shows "exclusive s'"
proof -
  from assms(1) have d: "is_dict (completed_urls s)" "is_dict (error_urls s)"
    and m: "is_dict (master_urls s)"
    and x: "keys_of (completed_urls s) \<inter> keys_of (error_urls s) = {}"
    by (simp_all add: exclusive_def)
  note k = loop_keys [OF d assms(2)]
  from d(1) obtain c where c: "completed_urls s = JObj c" by (rule is_dictE)
  from d(2) obtain e where e: "error_urls s = JObj e" by (rule is_dictE)
  from loop_frame [OF c e assms(2)] m have "is_dict (master_urls s')" by simp
  moreover from k x assms(3)
  have "keys_of (completed_urls s') \<inter> keys_of (error_urls s') = {}" by auto
  ultimately show ?thesis using k by (simp add: exclusive_def)
qed

lemma exclusive_collect:
  assumes "exclusive s" and "collect_urls ev ts s = (r, s')"
  shows "exclusive s' \<and> r = None"
proof -
  from assms(1) obtain m where m: "master_urls s = JObj m" "distinct (dict_keys m)"
    by (auto simp: exclusive_def elim: is_dictE)
  from collect_dict [OF m(1), of ev ts] assms(2) m(2)
  have "is_dict (master_urls s')" "r = None" by (auto simp: is_dict_def)
  with collect_frame [OF assms(2)] assms(1) show ?thesis by (simp add: exclusive_def)
qed

lemma exclusive_run:
  assumes "exclusive s" and "process_urls ev s = (r, s')"
  shows "exclusive s'"
proof -
  obtain r1 s1 where c: "(if \<not> py_truthy (master_urls s) then collect_urls ev (topics s) s else (None, s)) = (r1, s1)"
    by (cases "if \<not> py_truthy (master_urls s) then collect_urls ev (topics s) s else (None, s)")
  have s1: "exclusive s1 \<and> r1 = None"
  proof (cases "py_truthy (master_urls s)")
    case True
    with c assms(1) show ?thesis by simp
  next
    case False
    with c have "collect_urls ev (topics s) s = (r1, s1)" by simp
    from exclusive_collect [OF assms(1) this] show ?thesis .
  qed
  then obtain m where m: "master_urls s1 = JObj m"
    by (auto simp: exclusive_def elim: is_dictE)
  from s1 have d: "is_dict (completed_urls s1)" "is_dict (error_urls s1)"
    by (simp_all add: exclusive_def)
  from pending_of_dicts [OF d, of "dict_keys m"] obtain p where
    p: "pending_urls (completed_urls s1) (error_urls s1) (dict_keys m) = Inr p"
       "p = filter (\<lambda>u. u \<notin> keys_of (completed_urls s1) \<and> u \<notin> keys_of (error_urls s1)) (dict_keys m)"
    by blast
  from assms(2) c s1 m p(1) have "process_pending ev p s1 = (r, s')"
    by (simp add: process_urls_def)
  moreover from p(2) have "set p \<inter> (keys_of (completed_urls s1) \<union> keys_of (error_urls s1)) = {}"
    by auto
  ultimately show ?thesis using s1 by (blast intro: exclusive_loop)
qed

lemma reachable_exclusive: "reachable s \<Longrightarrow> exclusive s"
proof (induction rule: reachable.induct)
  case (loaded s)
  then show ?case by (simp add: exclusive_def)
next
  case (collected s ev ts r s')
  then show ?case by (blast dest: exclusive_collect)
next
  case (turn s url ev r s')
  have "set [url] \<inter> (keys_of (completed_urls s) \<union> keys_of (error_urls s)) = {}"
    using \<open>url \<notin> keys_of (completed_urls s)\<close> \<open>url \<notin> keys_of (error_urls s)\<close> by simp
  with \<open>exclusive s\<close> \<open>process_pending ev [url] s = (r, s')\<close> show ?case
    by (rule exclusive_loop)
next
  case (run s ev r s')
  then show ?case by (blast intro: exclusive_run)
next
  case (restart s n ts k)
  then show ?case by (simp add: exclusive_def)
qed

text \<open>
  C1. In every state reached from disjoint loaded dicts by collecting URLs, by turns of
  the loop on pending URLs, by whole runs and by restarts, no URL is a key of both the
  completed-set and the failed-set. A turn of the loop ends without an exception; when the
  fetch fails it puts the URL into the failed-set and leaves the completed-set as it was,
  otherwise it puts the URL into the completed-set and leaves the failed-set as it was.
  A URL that is in either set is not in the pending list, and a run does not hand it to
  \<^verbatim>\<open>scrape_website\<close>.
\<close>

theorem exclusivity:
  assumes "reachable s"
  shows "(\<forall>url. \<not> (url \<in> keys_of (completed_urls s) \<and> url \<in> keys_of (error_urls s))) \<and>
         (\<forall>ev url r s'. process_pending ev [url] s = (r, s') \<longrightarrow>
            r = None \<and>
            (if fetch_fails (fetch ev url)
             then url \<in> keys_of (error_urls s') \<and> completed_urls s' = completed_urls s
             else url \<in> keys_of (completed_urls s') \<and> error_urls s' = error_urls s)) \<and>
         (\<forall>ks p url. py_keys (master_urls s) = Inr ks \<and>
            pending_urls (completed_urls s) (error_urls s) ks = Inr p \<and>
            url \<in> keys_of (completed_urls s) \<union> keys_of (error_urls s) \<longrightarrow> url \<notin> set p) \<and>
         (\<forall>ev r s' url. process_urls ev s = (r, s') \<and>
            url \<in> keys_of (completed_urls s) \<union> keys_of (error_urls s) \<longrightarrow>
            url \<notin> set (drop (length (fetch_calls s)) (fetch_calls s')))"
proof -
  from assms have x: "exclusive s" by (rule reachable_exclusive)
  then have d: "is_dict (completed_urls s)" "is_dict (error_urls s)"
    and dm: "is_dict (master_urls s)"
    and disj: "keys_of (completed_urls s) \<inter> keys_of (error_urls s) = {}"
    by (simp_all add: exclusive_def)
  from d(1) obtain c where c: "completed_urls s = JObj c" by (rule is_dictE)
  from d(2) obtain e where e: "error_urls s = JObj e" by (rule is_dictE)
  have one: "\<forall>url. \<not> (url \<in> keys_of (completed_urls s) \<and> url \<in> keys_of (error_urls s))"
    using disj by blast
  have two: "r = None \<and>
            (if fetch_fails (fetch ev url)
             then url \<in> keys_of (error_urls s') \<and> completed_urls s' = completed_urls s
             else url \<in> keys_of (completed_urls s') \<and> error_urls s' = error_urls s)"
    if "process_pending ev [url] s = (r, s')" for ev url r s'
    using that single_turn [OF c e, of ev url]
    by (auto simp: failed_turn_fields completed_turn_fields keys_of_def keys_dict_set)
  have three: "url \<notin> set p"
    if "pending_urls (completed_urls s) (error_urls s) ks = Inr p"
      "url \<in> keys_of (completed_urls s) \<union> keys_of (error_urls s)" for ks p url
    using that pending_of_dicts [OF d, of ks] by auto
  have four: "url \<notin> set (drop (length (fetch_calls s)) (fetch_calls s'))"
    if "process_urls ev s = (r, s')"
      "url \<in> keys_of (completed_urls s) \<union> keys_of (error_urls s)" for ev r s' url
  proof -
    from run_on_dicts [OF dm d, of ev] that(1) obtain m' p where
      "p = filter (\<lambda>u. u \<notin> keys_of (completed_urls s) \<and> u \<notin> keys_of (error_urls s)) (dict_keys m')"
      "fetch_calls s' = fetch_calls s @ p"
      by auto
    with that(2) show ?thesis by auto
  qed
  from one two three four show ?thesis by blast
qed

theorem exclusivity_witness:
  "reachable (snd (process_urls quiet_env resumed_scraper)) \<and>
   ''v'' \<in> keys_of (error_urls (snd (process_urls quiet_env resumed_scraper))) \<and>
   ''v'' \<notin> keys_of (completed_urls (snd (process_urls quiet_env resumed_scraper)))"
proof -
  have "reachable resumed_scraper"
    by (rule reachable.loaded)
       (simp_all add: resumed_scraper_def is_dict_def keys_of_def dict_keys_def)
  then have r: "reachable (snd (process_urls quiet_env resumed_scraper))"
    by (rule reachable.run [where ev = quiet_env and r = "fst (process_urls quiet_env resumed_scraper)"]) simp
  have "''v'' \<in> keys_of (error_urls (snd (process_urls quiet_env resumed_scraper)))"
    by (simp add: resumed_run keys_of_def dict_keys_def)
  with exclusivity [OF r] r show ?thesis by blast
qed

subsection \<open>The constructor and the stores\<close>

lemma init_fields:
  assumes "ScrapeMaster_init ev d w str = Inr s"
  shows "topics s = map (str_strip ev) (split_on CHR '','' str)"
    and "urls_per_topic s = w div int (length (topics s))"
    and "search_calls s = []"
  using assms
  by (auto simp: ScrapeMaster_init_def Let_def split: if_splits sum.splits)

lemma init_loads:
  assumes "ScrapeMaster_init ev d w str = Inr s"
  shows "load_or_create_json ev (disk s) master_file = Inr (master_urls s)"
    and "load_or_create_json ev (disk s) completed_file = Inr (completed_urls s)"
    and "load_or_create_json ev (disk s) errors_file = Inr (error_urls s)"
  using assms
  by (auto simp: ScrapeMaster_init_def Let_def split: if_splits sum.splits)

lemma init_abc: "ScrapeMaster_init quiet_env Map.empty 10 ''a,b,c'' = Inr abc_scraper"
  by (simp add: ScrapeMaster_init_def Let_def quiet_env_def ascii_strip_def is_ascii_space_def
        mkdir_exist_ok_def load_or_create_json_def is_present_def output_dir_def master_file_def
        completed_file_def errors_file_def abc_scraper_def)

text \<open>
  C4. The number of URLs asked of each topic search is the floor division of the
  requested count by the number of topics, and the topic list is never empty. For 10
  websites and 3 topics it is 3, so the searches of a run ask for at most 9 URLs in
  all: the remainder is dropped.
\<close>

theorem floor_division:
  assumes "ScrapeMaster_init ev d w str = Inr s" and "process_urls ev s = (r, s')"
  shows "topics s \<noteq> [] \<and> length (topics s) = Suc (count_list str CHR '','') \<and>
         urls_per_topic s = w div int (length (topics s)) \<and>
         (\<forall>c \<in> set (search_calls s'). snd c = w div int (length (topics s))) \<and>
         length (search_calls s') \<le> length (topics s) \<and>
         (w = 10 \<and> length (topics s) = 3 \<longrightarrow>
            urls_per_topic s = 3 \<and> sum_list (map snd (search_calls s')) \<le> 9)"
proof -
  note f = init_fields [OF assms(1)]
  have len: "length (topics s) = Suc (count_list str CHR '','')"
    by (simp add: f(1) length_split_on)
  from process_urls_searches [OF assms(2)] obtain k where k: "k \<le> length (topics s)"
    "search_calls s' = map (\<lambda>t. (t, urls_per_topic s)) (take k (topics s))"
    by (auto simp: f(3))
  have each: "\<forall>c \<in> set (search_calls s'). snd c = w div int (length (topics s))"
    by (auto simp: k(2) f(2))
  have n: "length (search_calls s') \<le> length (topics s)"
    using k by simp
  have "sum_list (map snd (search_calls s')) \<le> 9" if "w = 10" "length (topics s) = 3"
  proof -
    have "urls_per_topic s = 3" using that f(2) by simp
    then have "sum_list (map snd (search_calls s')) = int (min k 3) * 3"
      using that k by (simp add: comp_def sum_list_triv)
    then show ?thesis by simp
  qed
  with len f(2) each n show ?thesis by auto
qed

theorem floor_division_witness:
  "ScrapeMaster_init quiet_env Map.empty 10 ''a,b,c'' = Inr abc_scraper \<and>
   urls_per_topic abc_scraper = 3 \<and> length (topics abc_scraper) = 3 \<and>
   search_calls (snd (process_urls quiet_env abc_scraper)) = [(''a'', 3), (''b'', 3), (''c'', 3)] \<and>
   sum_list (map snd (search_calls (snd (process_urls quiet_env abc_scraper)))) \<le> 9"
proof -
  have calls: "search_calls (snd (process_urls quiet_env abc_scraper)) = [(''a'', 3), (''b'', 3), (''c'', 3)]"
    by (simp add: process_urls_def abc_scraper_def quiet_env_def search_google_def
          search_google_sync_def Let_def dict_keys_def)
  have three: "length (topics abc_scraper) = 3"
    by (simp add: abc_scraper_def)
  show ?thesis
    using floor_division [OF init_abc, where r = "fst (process_urls quiet_env abc_scraper)"
        and s' = "snd (process_urls quiet_env abc_scraper)"] calls three init_abc
    by simp
qed

text \<open>
  C8, amended. A missing store file loads as the empty dict. A file whose text is not a
  JSON document makes the load fail with the decoder's error, and a directory in its place
  with the error of opening it. A file whose text is a JSON document loads as the value of
  that document, whatever its shape: there is no check that it is a mapping.
  \<^verbatim>\<open>__init__\<close> keeps what the three loads return.
\<close>

theorem load_store:
  "(d p = None \<longrightarrow> load_or_create_json ev d p = Inr (JObj [])) \<and>
   (d p = Some Dir \<longrightarrow> load_or_create_json ev d p = Inl (IsADirectoryError p)) \<and>
   (\<forall>t. d p = Some (File t) \<and> json_loads ev (universal_newlines t) = None \<longrightarrow>
      load_or_create_json ev d p = Inl JSONDecodeError) \<and>
   (\<forall>t j. d p = Some (File t) \<and> json_loads ev (universal_newlines t) = Some j \<longrightarrow>
      load_or_create_json ev d p = Inr j) \<and>
   (\<forall>w str s. ScrapeMaster_init ev d w str = Inr s \<longrightarrow>
      load_or_create_json ev (disk s) master_file = Inr (master_urls s) \<and>
      load_or_create_json ev (disk s) completed_file = Inr (completed_urls s) \<and>
      load_or_create_json ev (disk s) errors_file = Inr (error_urls s))"
proof -
  have "d p = None \<longrightarrow> load_or_create_json ev d p = Inr (JObj [])"
    by (simp add: load_or_create_json_def is_present_def)
  moreover have "d p = Some Dir \<longrightarrow> load_or_create_json ev d p = Inl (IsADirectoryError p)"
    by (simp add: load_or_create_json_def is_present_def open_read_def)
  moreover have "\<forall>t. d p = Some (File t) \<and> json_loads ev (universal_newlines t) = None \<longrightarrow>
      load_or_create_json ev d p = Inl JSONDecodeError"
    by (simp add: load_or_create_json_def is_present_def open_read_def)
  moreover have "\<forall>t j. d p = Some (File t) \<and> json_loads ev (universal_newlines t) = Some j \<longrightarrow>
      load_or_create_json ev d p = Inr j"
    by (simp add: load_or_create_json_def is_present_def open_read_def)
  moreover have "\<forall>w str s. ScrapeMaster_init ev d w str = Inr s \<longrightarrow>
      load_or_create_json ev (disk s) master_file = Inr (master_urls s) \<and>
      load_or_create_json ev (disk s) completed_file = Inr (completed_urls s) \<and>
      load_or_create_json ev (disk s) errors_file = Inr (error_urls s)"
    by (simp add: init_loads)
  ultimately show ?thesis by blast
qed

theorem load_store_witness:
  "load_or_create_json quiet_env Map.empty master_file = Inr (JObj []) \<and>
   load_or_create_json quiet_env [master_file \<mapsto> File ''{'' ] master_file = Inl JSONDecodeError \<and>
   load_or_create_json quiet_env [master_file \<mapsto> File ''{}''] master_file = Inr (JObj [])"
  using load_store [of Map.empty master_file quiet_env]
    load_store [of "[master_file \<mapsto> File ''{'']" master_file quiet_env]
    load_store [of "[master_file \<mapsto> File ''{}'']" master_file quiet_env]
  by (simp add: quiet_env_def small_loads_def)

theorem load_store_counterexample:
  "json_loads quiet_env ''[]'' = Some (JArr []) \<and>
   load_or_create_json quiet_env list_disk master_file = Inr (JArr []) \<and>
   ScrapeMaster_init quiet_env list_disk 10 ''a'' =
     Inr \<lparr> num_websites = 10, topics = [''a''], urls_per_topic = 10,
           master_urls = JArr [], completed_urls = JObj [], error_urls = JObj [],
           disk = list_disk(output_dir \<mapsto> Dir), search_calls = [], fetch_calls = [] \<rparr>"
  by (simp add: load_or_create_json_def is_present_def open_read_def quiet_env_def small_loads_def
        list_disk_def ScrapeMaster_init_def Let_def ascii_strip_def is_ascii_space_def mkdir_exist_ok_def
        output_dir_def master_file_def completed_file_def errors_file_def)

subsection \<open>The command line\<close>

lemma load_not_found: "load_or_create_json ev d p \<noteq> Inl (FileNotFoundError msg)"
  by (auto simp: load_or_create_json_def is_present_def open_read_def
      split: option.splits node.splits)

lemma mkdir_not_found: "mkdir_exist_ok d p \<noteq> Inl (FileNotFoundError msg)"
  by (auto simp: mkdir_exist_ok_def split: option.splits node.splits)

lemma init_not_found: "ScrapeMaster_init ev d w str \<noteq> Inl (FileNotFoundError msg, d')"
  using mkdir_not_found [of d output_dir msg] load_not_found [of ev _ _ msg]
  by (auto simp: ScrapeMaster_init_def Let_def split: if_splits sum.splits)

lemma csv_suffix: "path_suffix quiet_env ''topics.csv'' = ''.csv''"
  by (simp add: quiet_env_def simple_suffix_def)

text \<open>
  An argument that is too long a name makes \<^verbatim>\<open>Path(args.topics).exists()\<close> raise, and
  \<^verbatim>\<open>main\<close> fails with that error before anything is written.
\<close>

lemma long_argument_raises:
  "name_too_long ev arg \<Longrightarrow>
   main ev \<lparr>websites = w, topics_arg = arg\<rparr> d = Failed (OSError arg) d"
  by (simp add: main_def main_topics_str_def path_exists_def)

text \<open>
  C7, amended. When \<^verbatim>\<open>Path(args.topics).exists()\<close> returns false, the argument is taken
  as the literal comma-separated topic string, and \<^verbatim>\<open>main\<close> does not fail with a
  not-found error (\<^verbatim>\<open>load_topics_from_file\<close> itself raises one for a missing path, but
  \<^verbatim>\<open>main\<close> calls it only for an existing path). When it returns true and the suffix of
  the path is none of the five supported ones, \<^verbatim>\<open>main\<close> fails with the
  unsupported-format error, and the directory is left as it was.
\<close>

theorem topics_argument:
  "(path_exists ev d arg = Inr False \<longrightarrow>
      main_topics_str ev d arg = Inr arg \<and>
      load_topics_from_file ev d arg = Inl (FileNotFoundError (''File not found: '' @ arg)) \<and>
      (\<forall>w msg d'. main ev \<lparr>websites = w, topics_arg = arg\<rparr> d \<noteq> Failed (FileNotFoundError msg) d')) \<and>
   (path_exists ev d arg = Inr True \<and>
    path_suffix ev arg \<notin> set [''.json'', ''.yaml'', ''.yml'', ''.txt'', ''.md''] \<longrightarrow>
      (\<forall>w. main ev \<lparr>websites = w, topics_arg = arg\<rparr> d =
         Failed (ValueError (''Unsupported file format: '' @ path_suffix ev arg)) d))"
proof (intro conjI impI allI)
  assume "path_exists ev d arg = Inr False"
  then show "main_topics_str ev d arg = Inr arg"
    by (simp add: main_topics_str_def)
next
  assume "path_exists ev d arg = Inr False"
  then show "load_topics_from_file ev d arg = Inl (FileNotFoundError (''File not found: '' @ arg))"
    by (simp add: load_topics_from_file_def)
next
  fix w msg d'
  assume "path_exists ev d arg = Inr False"
  then have "main_topics_str ev d arg = Inr arg"
    by (simp add: main_topics_str_def)
  then show "main ev \<lparr>websites = w, topics_arg = arg\<rparr> d \<noteq> Failed (FileNotFoundError msg) d'"
    using init_not_found [of ev d w arg msg d']
    by (auto simp: main_def split: sum.splits prod.splits)
next
  fix w
  assume "path_exists ev d arg = Inr True \<and>
    path_suffix ev arg \<notin> set [''.json'', ''.yaml'', ''.yml'', ''.txt'', ''.md'']"
  then have "main_topics_str ev d arg =
      Inl (ValueError (''Unsupported file format: '' @ path_suffix ev arg))"
    by (simp add: main_topics_str_def load_topics_from_file_def)
  then show "main ev \<lparr>websites = w, topics_arg = arg\<rparr> d =
      Failed (ValueError (''Unsupported file format: '' @ path_suffix ev arg)) d"
    by (simp add: main_def)
qed

lemma short_names:
  "\<not> name_too_long quiet_env ''topics.csv''" "\<not> name_too_long quiet_env ''missing.txt''"
  by (simp_all add: quiet_env_def)

theorem topics_argument_witness:
  "main quiet_env \<lparr>websites = 10, topics_arg = ''topics.csv''\<rparr> csv_disk =
     Failed (ValueError ''Unsupported file format: .csv'') csv_disk \<and>
   main_topics_str quiet_env Map.empty ''missing.txt'' = Inr ''missing.txt''"
proof -
  have a: "path_exists quiet_env csv_disk ''topics.csv'' = Inr True"
    "path_exists quiet_env Map.empty ''missing.txt'' = Inr False"
    by (simp_all add: path_exists_def is_present_def csv_disk_def short_names)
  have b: "path_suffix quiet_env ''topics.csv'' \<notin> set [''.json'', ''.yaml'', ''.yml'', ''.txt'', ''.md'']"
    by (simp add: csv_suffix)
  from topics_argument [of quiet_env csv_disk "''topics.csv''"] a(1) b
    topics_argument [of quiet_env Map.empty "''missing.txt''"] a(2)
  show ?thesis by (simp add: csv_suffix)
qed

theorem topics_argument_counterexample:
  "path_exists quiet_env Map.empty ''missing.txt'' = Inr False \<and>
   main quiet_env \<lparr>websites = 10, topics_arg = ''missing.txt''\<rparr> Map.empty = Ran None literal_run"
proof -
  have there: "path_exists quiet_env Map.empty ''missing.txt'' = Inr False"
    by (simp add: path_exists_def is_present_def short_names)
  have init: "ScrapeMaster_init quiet_env Map.empty 10 ''missing.txt'' =
      Inr \<lparr> num_websites = 10, topics = [''missing.txt''], urls_per_topic = 10,
            master_urls = JObj [], completed_urls = JObj [], error_urls = JObj [],
            disk = [output_dir \<mapsto> Dir], search_calls = [], fetch_calls = [] \<rparr>"
    by (simp add: ScrapeMaster_init_def Let_def quiet_env_def ascii_strip_def is_ascii_space_def
          mkdir_exist_ok_def load_or_create_json_def is_present_def output_dir_def
          master_file_def completed_file_def errors_file_def)
  have run: "process_urls quiet_env
       \<lparr> num_websites = 10, topics = [''missing.txt''], urls_per_topic = 10,
         master_urls = JObj [], completed_urls = JObj [], error_urls = JObj [],
         disk = [output_dir \<mapsto> Dir], search_calls = [], fetch_calls = [] \<rparr> = (None, literal_run)"
    by (simp add: process_urls_def quiet_env_def search_google_def search_google_sync_def
          write_file_def dict_keys_def literal_run_def small_dump_def)
  from there init run show ?thesis
    by (simp add: main_def main_topics_str_def)
qed

end
